theory Spec2Isabelle
  imports Main "HOL-Library.AList" "HOL-Library.Char_ord" "HOL-Library.List_Lexorder"
begin

section \<open>Relation state of a unit agent: data model\<close>

text \<open>
  The Go package \<^verbatim>\<open>relation\<close> keeps, per relation, a \<^verbatim>\<open>State\<close> in memory and a
  directory of small YAML files on disk. This theory embeds the package: the state and
  its validation, the directory loader, the bulk loader and the writer, over an explicit
  model of the part of the file system the package touches.

  Go's \<^verbatim>\<open>int\<close> is modelled as \<^typ>\<open>int\<close>: the package never does arithmetic on relation
  ids or change versions, it only compares, stores and prints them. A Go \<^verbatim>\<open>string\<close> is a
  \<^typ>\<open>string\<close> (a list of bytes).
\<close>

subsection \<open>Hooks\<close>

text \<open>
  Modelled from the spec: the package \<^verbatim>\<open>hook\<close> that declares \<^verbatim>\<open>hook.Kind\<close> and
  \<^verbatim>\<open>hook.Info\<close> is not among the sources. The spec names four kinds of relation event
  (joined, changed, departed, relation torn down) and an event descriptor
  \<^verbatim>\<open>{relationId, remoteUnit, kind, changeVersion}\<close>. In Go \<^verbatim>\<open>Kind\<close> is a string type, so a
  value outside the four constants can reach the package: \<open>OtherKind\<close> stands for every
  such value. The code only ever compares a kind with the constants.
\<close>

datatype Kind = RelationJoined | RelationChanged | RelationDeparted | RelationBroken
  | OtherKind string

record Info =
  Kind :: Kind
  RelationId :: int
  RemoteUnit :: string
  ChangeVersion :: int

subsection \<open>State\<close>

text \<open>
  \<^verbatim>\<open>State.Members\<close> is a Go map that may be \<^verbatim>\<open>nil\<close>; \<^verbatim>\<open>nil\<close> is the sentinel of a broken
  relation. The model keeps the difference: \<open>None\<close> is the nil map, \<open>Some m\<close> an
  allocated map (possibly empty).
\<close>

record State =
  StateRelationId :: int
  Members :: "(string \<rightharpoonup> int) option"
  ChangedPending :: string

text \<open>\<^verbatim>\<open>State.copy\<close>: a nil map stays nil, an allocated map is copied entry by entry.\<close>

definition copy :: "State \<Rightarrow> State" where
  "copy s =
     (let c = \<lparr>StateRelationId = StateRelationId s, Members = None,
                ChangedPending = ChangedPending s\<rparr>
      in case Members s of
           None \<Rightarrow> c
         | Some m \<Rightarrow> c\<lparr>Members := Some (\<lambda>u. m u)\<rparr>)"

subsection \<open>Validation\<close>

text \<open>
  The errors of \<^verbatim>\<open>State.Validate\<close>, one constructor per \<^verbatim>\<open>fmt.Errorf\<close> of the function, with
  the values the message prints. The deferred \<^verbatim>\<open>trivial.ErrorContextf\<close> only prefixes the
  message of a non-nil error with the kind and the unit of the event; it changes neither
  which error is returned nor whether one is.
\<close>

datatype validation_error =
    WrongRelation int int
  | RelationAlreadyBroken
  | UnitsStillPresent
  | PendingChangeRequired string
  | AlreadyJoined
  | NotJoined

definition Validate :: "State \<Rightarrow> Info \<Rightarrow> validation_error + unit" where
  "Validate s hi =
     (if RelationId hi \<noteq> StateRelationId s
      then Inl (WrongRelation (StateRelationId s) (RelationId hi))
      else case Members s of
        None \<Rightarrow> Inl RelationAlreadyBroken
      | Some members \<Rightarrow>
          (let unit = RemoteUnit hi; kind = Kind hi in
           if kind = RelationBroken
           then (if members = Map.empty then Inr () else Inl UnitsStillPresent)
           else if ChangedPending s \<noteq> ''''
           then (if unit \<noteq> ChangedPending s \<or> kind \<noteq> RelationChanged
                 then Inl (PendingChangeRequired (ChangedPending s))
                 else Inr ())
           else (let joined = (members unit \<noteq> None) in
                 if joined \<and> kind = RelationJoined then Inl AlreadyJoined
                 else if \<not> joined \<and> kind \<noteq> RelationJoined then Inl NotJoined
                 else Inr ())))"

text \<open>
  The six checks of the spec (section 4.1), written from its words: each check is tried
  only when all earlier ones passed.
\<close>

definition torn_down :: "State \<Rightarrow> bool" where
  "torn_down s = (Members s = None)"

definition is_member :: "State \<Rightarrow> string \<Rightarrow> bool" where
  "is_member s u = (case Members s of None \<Rightarrow> False | Some m \<Rightarrow> u \<in> dom m)"

definition no_members :: "State \<Rightarrow> bool" where
  "no_members s = (case Members s of None \<Rightarrow> False | Some m \<Rightarrow> dom m = {})"

definition pending_set :: "State \<Rightarrow> bool" where
  "pending_set s = (ChangedPending s \<noteq> '''')"

definition Validate_spec :: "State \<Rightarrow> Info \<Rightarrow> validation_error + unit" where
  "Validate_spec s e =
     (if RelationId e \<noteq> StateRelationId s
        then Inl (WrongRelation (StateRelationId s) (RelationId e))
      else if torn_down s
        then Inl RelationAlreadyBroken
      else if Kind e = RelationBroken
        then (if no_members s then Inr () else Inl UnitsStillPresent)
      else if pending_set s
        then (if Kind e = RelationChanged \<and> RemoteUnit e = ChangedPending s then Inr ()
              else Inl (PendingChangeRequired (ChangedPending s)))
      else if Kind e = RelationJoined \<and> is_member s (RemoteUnit e)
        then Inl AlreadyJoined
      else if Kind e \<noteq> RelationJoined \<and> \<not> is_member s (RemoteUnit e)
        then Inl NotJoined
      else Inr ())"

section \<open>Strings and numbers\<close>

text \<open>
  The Go standard library functions the package calls on strings, modelled from their
  documentation. \<^verbatim>\<open>strconv.Atoi\<close> reads an optional sign and at least one decimal digit and
  fails on anything else and on a value outside \<^verbatim>\<open>int\<close> (taken as 64 bits wide).
\<close>

definition digit_val :: "char \<Rightarrow> nat option" where
  "digit_val c =
     map_of [(CHR ''0'', 0), (CHR ''1'', 1), (CHR ''2'', 2), (CHR ''3'', 3), (CHR ''4'', 4),
             (CHR ''5'', 5), (CHR ''6'', 6), (CHR ''7'', 7), (CHR ''8'', 8), (CHR ''9'', 9)] c"

fun parse_uint :: "string \<Rightarrow> nat \<Rightarrow> nat option" where
  "parse_uint [] acc = Some acc"
| "parse_uint (c # cs) acc =
     (case digit_val c of None \<Rightarrow> None | Some d \<Rightarrow> parse_uint cs (10 * acc + d))"

definition Atoi :: "string \<Rightarrow> int option" where
  "Atoi s =
     (let (neg, ds) =
            (case s of
               [] \<Rightarrow> (False, s)
             | c # cs \<Rightarrow>
                 if c = CHR ''+'' then (False, cs)
                 else if c = CHR ''-'' then (True, cs)
                 else (False, s))
      in if ds = [] then None
         else case parse_uint ds 0 of
                None \<Rightarrow> None
              | Some n \<Rightarrow>
                  (let v = (if neg then - int n else int n)
                   in if - (2 ^ 63) \<le> v \<and> v < 2 ^ 63 then Some v else None))"

text \<open>\<^verbatim>\<open>strconv.Itoa\<close>: the decimal digits, after a minus sign for a negative number.\<close>

definition digit_char :: "nat \<Rightarrow> char" where
  "digit_char d = ''0123456789'' ! d"

fun uitoa :: "nat \<Rightarrow> string" where
  "uitoa n = (if n < 10 then [digit_char n] else uitoa (n div 10) @ [digit_char (n mod 10)])"

declare uitoa.simps [simp del]

definition Itoa :: "int \<Rightarrow> string" where
  "Itoa i = (if i < 0 then CHR ''-'' # uitoa (nat (- i)) else uitoa (nat i))"

text \<open>
  \<^verbatim>\<open>strings.LastIndex(name, "-")\<close> for a separator of one byte: the index of its last
  occurrence, \<open>None\<close> for Go's \<open>-1\<close>.
\<close>

fun LastIndex :: "string \<Rightarrow> char \<Rightarrow> nat option" where
  "LastIndex [] c = None"
| "LastIndex (x # xs) c =
     (case LastIndex xs c of
        Some i \<Rightarrow> Some (Suc i)
      | None \<Rightarrow> if x = c then Some 0 else None)"

text \<open>\<^verbatim>\<open>strings.Replace(s, old, new, 1)\<close> for one-byte strings: the first occurrence only.\<close>

fun Replace :: "string \<Rightarrow> char \<Rightarrow> char \<Rightarrow> string" where
  "Replace [] a b = []"
| "Replace (x # xs) a b = (if x = a then b # xs else x # Replace xs a b)"

section \<open>The file system\<close>

text \<open>
  The file system is a tree. A path is the list of its components from the root
  directory (an absolute, clean path). A record file holds either a YAML document that
  unmarshals into \<^verbatim>\<open>diskInfo\<close> or bytes that do not; a directory holds its entries as an
  association list read through \<^const>\<open>map_of\<close>.

  \<^verbatim>\<open>diskInfo.ChangeVersion\<close> is a pointer: \<open>None\<close> is the nil pointer of a document without
  the field \<^verbatim>\<open>change-version\<close>.
\<close>

record diskInfo =
  di_ChangeVersion :: "int option"
  di_ChangedPending :: bool

datatype content = Unparsable | Yaml diskInfo

datatype node = File content | Dir "(string \<times> node) list"

type_synonym filepath = "string list"

datatype errno = ENOENT | ENOTDIR | EISDIR | ENOTEMPTY | EBUSY

text \<open>
  Path resolution as the kernel does it, one component at a time: a missing entry of a
  directory is \<open>ENOENT\<close>, a component below a regular file is \<open>ENOTDIR\<close>.
\<close>

fun walk :: "node \<Rightarrow> filepath \<Rightarrow> errno + node" where
  "walk n [] = Inr n"
| "walk (File c) (x # xs) = Inl ENOTDIR"
| "walk (Dir es) (x # xs) = (case map_of es x of None \<Rightarrow> Inl ENOENT | Some n \<Rightarrow> walk n xs)"

text \<open>\<^verbatim>\<open>os.Stat\<close>, and \<^verbatim>\<open>os.IsNotExist\<close> on its error (true for \<open>ENOENT\<close> only).\<close>

definition Stat :: "node \<Rightarrow> filepath \<Rightarrow> errno + node" where
  "Stat fs p = walk fs p"

definition IsNotExist :: "errno \<Rightarrow> bool" where
  "IsNotExist err = (err = ENOENT)"

text \<open>\<^verbatim>\<open>ioutil.ReadDir\<close>: the names of the entries of a directory, sorted by name.\<close>

definition entry_names :: "(string \<times> node) list \<Rightarrow> string list" where
  "entry_names es = sort (remdups (map fst es))"

definition ReadDir :: "node \<Rightarrow> filepath \<Rightarrow> errno + string list" where
  "ReadDir fs p =
     (case walk fs p of
        Inl err \<Rightarrow> Inl err
      | Inr (File c) \<Rightarrow> Inl ENOTDIR
      | Inr (Dir es) \<Rightarrow> Inr (entry_names es))"

text \<open>
  \<^verbatim>\<open>os.Remove\<close>: removes a file or an empty directory. The root directory cannot be
  removed.
\<close>

fun Remove :: "node \<Rightarrow> filepath \<Rightarrow> errno + node" where
  "Remove n [] = Inl EBUSY"
| "Remove (File c) (x # xs) = Inl ENOTDIR"
| "Remove (Dir es) [x] =
     (case map_of es x of
        None \<Rightarrow> Inl ENOENT
      | Some (File c) \<Rightarrow> Inr (Dir (AList.delete x es))
      | Some (Dir ds) \<Rightarrow> if ds = [] then Inr (Dir (AList.delete x es)) else Inl ENOTEMPTY)"
| "Remove (Dir es) (x # y # ys) =
     (case map_of es x of
        None \<Rightarrow> Inl ENOENT
      | Some n \<Rightarrow>
          (case Remove n (y # ys) of
             Inl err \<Rightarrow> Inl err
           | Inr n' \<Rightarrow> Inr (Dir (AList.update x n' es))))"

text \<open>
  \<^verbatim>\<open>filepath.Join(dir, name)\<close> for a clean absolute \<open>dir\<close>: the name is split at the
  separator and the result is cleaned: empty components and \<^verbatim>\<open>.\<close> are dropped, \<^verbatim>\<open>..\<close>
  steps to the parent (and stays at the root).
\<close>

fun split_sep :: "string \<Rightarrow> string list" where
  "split_sep [] = [[]]"
| "split_sep (x # xs) =
     (if x = CHR ''/'' then [] # split_sep xs
      else case split_sep xs of
             [] \<Rightarrow> [[x]]
           | w # ws \<Rightarrow> (x # w) # ws)"

fun clean_onto :: "filepath \<Rightarrow> string list \<Rightarrow> filepath" where
  "clean_onto p [] = p"
| "clean_onto p (c # cs) =
     (if c = [] \<or> c = ''.'' then clean_onto p cs
      else if c = ''..'' then clean_onto (butlast p) cs
      else clean_onto (p @ [c]) cs)"

definition Join :: "filepath \<Rightarrow> string \<Rightarrow> filepath" where
  "Join dir name = clean_onto dir (split_sep name)"

subsection \<open>The helpers of package trivial\<close>

text \<open>
  Modelled from the spec: \<^verbatim>\<open>trivial.ReadYaml\<close>, \<^verbatim>\<open>trivial.WriteYaml\<close> and
  \<^verbatim>\<open>trivial.EnsureDir\<close> are not among the sources, and neither is the YAML codec. The spec
  says a record file holds a required integer \<^verbatim>\<open>change-version\<close> and an optional boolean
  \<^verbatim>\<open>changed-pending\<close>; that a record is written atomically (a crash or a failure leaves the
  previous content); and that Ensure creates the directory and any missing parent if it
  is absent and does nothing if it is present. A document is kept as the \<^verbatim>\<open>diskInfo\<close> it
  unmarshals into, so marshalling followed by unmarshalling is the identity.
\<close>

datatype yaml_error = ReadFailed errno | BadYaml

definition ReadYaml :: "node \<Rightarrow> filepath \<Rightarrow> yaml_error + diskInfo" where
  "ReadYaml fs p =
     (case walk fs p of
        Inl err \<Rightarrow> Inl (ReadFailed err)
      | Inr (Dir es) \<Rightarrow> Inl (ReadFailed EISDIR)
      | Inr (File Unparsable) \<Rightarrow> Inl BadYaml
      | Inr (File (Yaml di)) \<Rightarrow> Inr di)"

fun WriteYaml :: "node \<Rightarrow> filepath \<Rightarrow> diskInfo \<Rightarrow> errno + node" where
  "WriteYaml n [] di = Inl EISDIR"
| "WriteYaml (File c) (x # xs) di = Inl ENOTDIR"
| "WriteYaml (Dir es) [x] di =
     (case map_of es x of
        Some (Dir ds) \<Rightarrow> Inl EISDIR
      | _ \<Rightarrow> Inr (Dir (AList.update x (File (Yaml di)) es)))"
| "WriteYaml (Dir es) (x # y # ys) di =
     (case map_of es x of
        None \<Rightarrow> Inl ENOENT
      | Some n \<Rightarrow>
          (case WriteYaml n (y # ys) di of
             Inl err \<Rightarrow> Inl err
           | Inr n' \<Rightarrow> Inr (Dir (AList.update x n' es))))"

fun EnsureDir :: "node \<Rightarrow> filepath \<Rightarrow> errno + node" where
  "EnsureDir (File c) p = Inl ENOTDIR"
| "EnsureDir (Dir es) [] = Inr (Dir es)"
| "EnsureDir (Dir es) (x # xs) =
     (case EnsureDir (case map_of es x of None \<Rightarrow> Dir [] | Some n \<Rightarrow> n) xs of
        Inl err \<Rightarrow> Inl err
      | Inr n' \<Rightarrow> Inr (Dir (AList.update x n' es)))"

section \<open>The state directory\<close>

record StateDir =
  path :: filepath
  state :: State

text \<open>\<^verbatim>\<open>StateDir.State\<close> returns a copy of the cached state.\<close>

definition State_of :: "StateDir \<Rightarrow> State" where
  "State_of d = copy (state d)"

subsection \<open>Loading\<close>

datatype load_error =
    FsError errno
  | InvalidUnitFile string yaml_error
  | VersionNotSet string
  | BothPending string string

text \<open>
  The loop of \<^verbatim>\<open>ReadStateDir\<close> over the listing. The state it updates is the members map
  (the non-nil map allocated at the start of the function) and the pending unit. The
  path of an entry is \<^verbatim>\<open>filepath.Join(d.path, name)\<close> for a name the listing returned, which
  is the path of the directory followed by that name.
\<close>

fun load_units ::
  "node \<Rightarrow> filepath \<Rightarrow> string list \<Rightarrow> (string \<rightharpoonup> int) \<times> string
     \<Rightarrow> load_error + ((string \<rightharpoonup> int) \<times> string)" where
  "load_units fs p [] st = Inr st"
| "load_units fs p (name # fis) (members, pending) =
     (case LastIndex name CHR ''-'' of
        None \<Rightarrow> load_units fs p fis (members, pending)
      | Some i \<Rightarrow>
          (let svcName = take i name; unitId = drop (Suc i) name in
           case Atoi unitId of
             None \<Rightarrow> load_units fs p fis (members, pending)
           | Some n \<Rightarrow>
               (let unitName = svcName @ ''/'' @ unitId in
                case ReadYaml fs (p @ [name]) of
                  Inl err \<Rightarrow> Inl (InvalidUnitFile name err)
                | Inr info \<Rightarrow>
                    (case di_ChangeVersion info of
                       None \<Rightarrow> Inl (VersionNotSet name)
                     | Some v \<Rightarrow>
                         if di_ChangedPending info
                         then (if pending \<noteq> ''''
                               then Inl (BothPending pending unitName)
                               else load_units fs p fis (members(unitName \<mapsto> v), unitName))
                         else load_units fs p fis (members(unitName \<mapsto> v), pending)))))"

text \<open>
  \<^verbatim>\<open>ReadStateDir\<close>. The path of the state directory is
  \<^verbatim>\<open>filepath.Join(dirPath, strconv.Itoa(relationId))\<close>: the decimal string is one clean
  component, so the path is \<open>dirPath\<close> followed by it.
\<close>

definition ReadStateDir :: "node \<Rightarrow> filepath \<Rightarrow> int \<Rightarrow> load_error + StateDir" where
  "ReadStateDir fs dirPath relationId =
     (let d = \<lparr>path = dirPath @ [Itoa relationId],
               state = \<lparr>StateRelationId = relationId, Members = Some Map.empty,
                        ChangedPending = ''''\<rparr>\<rparr>
      in case Stat fs (path d) of
           Inl err \<Rightarrow> if IsNotExist err then Inr d else Inl (FsError err)
         | Inr fi \<Rightarrow>
             (case ReadDir fs (path d) of
                Inl err \<Rightarrow> Inl (FsError err)
              | Inr fis \<Rightarrow>
                  (case load_units fs (path d) fis (Map.empty, '''') of
                     Inl err \<Rightarrow> Inl err
                   | Inr (members, pending) \<Rightarrow>
                       Inr (d\<lparr>state := (state d)\<lparr>Members := Some members,
                                                ChangedPending := pending\<rparr>\<rparr>))))"

text \<open>
  \<^verbatim>\<open>ReadAllStateDirs\<close>. The result \<open>None\<close> is Go's nil map, returned when the directory
  does not exist.
\<close>

fun load_dirs ::
  "node \<Rightarrow> filepath \<Rightarrow> string list \<Rightarrow> (int \<rightharpoonup> StateDir) \<Rightarrow> load_error + (int \<rightharpoonup> StateDir)" where
  "load_dirs fs dirPath [] dirs = Inr dirs"
| "load_dirs fs dirPath (name # fis) dirs =
     (case Atoi name of
        None \<Rightarrow> load_dirs fs dirPath fis dirs
      | Some relationId \<Rightarrow>
          (case ReadStateDir fs dirPath relationId of
             Inl err \<Rightarrow> Inl err
           | Inr dir \<Rightarrow> load_dirs fs dirPath fis (dirs(relationId \<mapsto> dir))))"

definition ReadAllStateDirs ::
  "node \<Rightarrow> filepath \<Rightarrow> load_error + (int \<rightharpoonup> StateDir) option" where
  "ReadAllStateDirs fs dirPath =
     (case Stat fs dirPath of
        Inl err \<Rightarrow> if IsNotExist err then Inr None else Inl (FsError err)
      | Inr fi \<Rightarrow>
          (case ReadDir fs dirPath of
             Inl err \<Rightarrow> Inl (FsError err)
           | Inr fis \<Rightarrow>
               (case load_dirs fs dirPath fis Map.empty of
                  Inl err \<Rightarrow> Inl err
                | Inr dirs \<Rightarrow> Inr (Some dirs))))"

subsection \<open>Ensure and Write\<close>

definition Ensure :: "node \<Rightarrow> StateDir \<Rightarrow> errno + node" where
  "Ensure fs d = EnsureDir fs (path d)"

text \<open>
  \<^verbatim>\<open>StateDir.Write\<close> returns the outcome, the file system and the state directory after the
  call. A failed file system operation returns its error and leaves both as they were.
  Assigning to an entry of the nil members map panics; that happens after the record
  was written.
\<close>

datatype write_fault = WriteError errno | NilMapPanic

definition Write :: "node \<Rightarrow> StateDir \<Rightarrow> Info \<Rightarrow> (write_fault + unit) \<times> node \<times> StateDir" where
  "Write fs d hi =
     (if Kind hi = RelationBroken then
        (case Remove fs (path d) of
           Inl err \<Rightarrow>
             if \<not> IsNotExist err then (Inl (WriteError err), fs, d)
             else (Inr (), fs, d\<lparr>state := (state d)\<lparr>Members := None\<rparr>\<rparr>)
         | Inr fs' \<Rightarrow> (Inr (), fs', d\<lparr>state := (state d)\<lparr>Members := None\<rparr>\<rparr>))
      else
        (let name = Replace (RemoteUnit hi) CHR ''/'' CHR ''-'';
             p = Join (path d) name
         in if Kind hi = RelationDeparted then
              (let d' = d\<lparr>state := (state d)\<lparr>Members :=
                            map_option (\<lambda>m. m(RemoteUnit hi := None)) (Members (state d))\<rparr>\<rparr>
               in case Remove fs p of
                    Inl err \<Rightarrow>
                      if \<not> IsNotExist err then (Inl (WriteError err), fs, d)
                      else (Inr (), fs, d')
                  | Inr fs' \<Rightarrow> (Inr (), fs', d'))
            else
              (let di = \<lparr>di_ChangeVersion = Some (ChangeVersion hi),
                         di_ChangedPending = (Kind hi = RelationJoined)\<rparr>
               in case WriteYaml fs p di of
                    Inl err \<Rightarrow> (Inl (WriteError err), fs, d)
                  | Inr fs' \<Rightarrow>
                      (case Members (state d) of
                         None \<Rightarrow> (Inl NilMapPanic, fs', d)
                       | Some m \<Rightarrow>
                           (Inr (), fs',
                            d\<lparr>state := (state d)\<lparr>
                                 Members := Some (m(RemoteUnit hi \<mapsto> ChangeVersion hi)),
                                 ChangedPending :=
                                   (if Kind hi = RelationJoined then RemoteUnit hi
                                    else '''')\<rparr>\<rparr>)))))"

section \<open>Notions the properties are stated with\<close>

text \<open>The freshly initialised state of the spec: no member, not torn down, no pending unit.\<close>

definition fresh_state :: "int \<Rightarrow> State" where
  "fresh_state relationId =
     \<lparr>StateRelationId = relationId, Members = Some Map.empty, ChangedPending = ''''\<rparr>"

definition fresh_dir :: "filepath \<Rightarrow> int \<Rightarrow> StateDir" where
  "fresh_dir dirPath relationId =
     \<lparr>path = dirPath @ [Itoa relationId], state = fresh_state relationId\<rparr>"

text \<open>Two calls of \<open>Write\<close> in succession with the same event.\<close>

definition Write_twice ::
  "node \<Rightarrow> StateDir \<Rightarrow> Info \<Rightarrow> (write_fault + unit) \<times> node \<times> StateDir" where
  "Write_twice fs d hi = (case Write fs d hi of (r, fs', d') \<Rightarrow> Write fs' d' hi)"

text \<open>
  Modelled from the spec: the dispatch loop that drives the package is not among the
  sources. Section 2 of the spec describes it: for each event it asks the state
  directory for its current state, validates the event against it, runs the hook, and
  only then records the event with \<open>Write\<close>. The loop stops at the first event that is
  refused or cannot be recorded.
\<close>

datatype run_result =
    Completed node StateDir
  | Rejected validation_error
  | NotRecorded write_fault

fun run :: "node \<Rightarrow> StateDir \<Rightarrow> Info list \<Rightarrow> run_result" where
  "run fs d [] = Completed fs d"
| "run fs d (e # es) =
     (case Validate (State_of d) e of
        Inl err \<Rightarrow> Rejected err
      | Inr ok \<Rightarrow>
          (case Write fs d e of
             (Inl fault, fs', d') \<Rightarrow> NotRecorded fault
           | (Inr ok', fs', d') \<Rightarrow> run fs' d' es))"

text \<open>Recording a sequence of events without validating them.\<close>

fun write_all :: "node \<Rightarrow> StateDir \<Rightarrow> Info list \<Rightarrow> (node \<times> StateDir) option" where
  "write_all fs d [] = Some (fs, d)"
| "write_all fs d (e # es) =
     (case Write fs d e of
        (Inl fault, fs', d') \<Rightarrow> None
      | (Inr ok, fs', d') \<Rightarrow> write_all fs' d' es)"

text \<open>The events of one unit: joined, changed and departed.\<close>

definition member_event :: "Info \<Rightarrow> bool" where
  "member_event e =
     (Kind e = RelationJoined \<or> Kind e = RelationChanged \<or> Kind e = RelationDeparted)"

text \<open>
  The file name pattern of the loader: a name \<^verbatim>\<open><service>-<number>\<close>, split at its last
  hyphen, is the record of the unit \<^verbatim>\<open><service>/<number>\<close>.
\<close>

definition unit_of_file :: "string \<Rightarrow> string option" where
  "unit_of_file name =
     (case LastIndex name CHR ''-'' of
        None \<Rightarrow> None
      | Some i \<Rightarrow>
          (case Atoi (drop (Suc i) name) of
             None \<Rightarrow> None
           | Some n \<Rightarrow> Some (take i name @ ''/'' @ drop (Suc i) name)))"

definition is_unit_file :: "string \<Rightarrow> bool" where
  "is_unit_file name = (unit_of_file name \<noteq> None)"

text \<open>The other direction: the last separator of a unit name becomes a hyphen.\<close>

definition file_of_unit :: "string \<Rightarrow> string" where
  "file_of_unit u =
     (case LastIndex u CHR ''/'' of
        None \<Rightarrow> u
      | Some i \<Rightarrow> take i u @ ''-'' @ drop (Suc i) u)"

text \<open>
  A unit name as the platform forms it: \<^verbatim>\<open><service>/<number>\<close> with one separator and an
  unsigned or plus-signed decimal number.
\<close>

definition unit_name_ok :: "string \<Rightarrow> bool" where
  "unit_name_ok u =
     (case LastIndex u CHR ''/'' of
        None \<Rightarrow> False
      | Some i \<Rightarrow>
          CHR ''/'' \<notin> set (take i u) \<and> CHR ''-'' \<notin> set (drop (Suc i) u)
          \<and> Atoi (drop (Suc i) u) \<noteq> None)"

text \<open>What a directory entry records, when it is a readable record file.\<close>

definition record_of :: "(string \<rightharpoonup> node) \<Rightarrow> string \<Rightarrow> diskInfo option" where
  "record_of dir name =
     (case dir name of Some (File (Yaml di)) \<Rightarrow> Some di | _ \<Rightarrow> None)"

definition version_of :: "(string \<rightharpoonup> node) \<Rightarrow> string \<Rightarrow> int option" where
  "version_of dir name =
     (case record_of dir name of None \<Rightarrow> None | Some di \<Rightarrow> di_ChangeVersion di)"

definition pending_file :: "(string \<rightharpoonup> node) \<Rightarrow> string \<Rightarrow> bool" where
  "pending_file dir name =
     (is_unit_file name \<and>
      (case record_of dir name of None \<Rightarrow> False | Some di \<Rightarrow> di_ChangedPending di))"

subsection \<open>The protocol of the spec\<close>

text \<open>
  The protocol of section 4.1, written from the spec's words as a machine over the set of
  units present and the unit that still awaits its first changed event: a unit joins,
  then gets its first changed event before anything else happens in the relation, then
  any number of further changed events, then departs; the relation is torn down only
  once no unit is present, and nothing follows the teardown. Every event carries the id
  of the relation.
\<close>

datatype protocol_state = Active "string set" "string option" | TornDown

fun protocol_step :: "protocol_state \<Rightarrow> Kind \<Rightarrow> string \<Rightarrow> protocol_state option" where
  "protocol_step TornDown k u = None"
| "protocol_step (Active present awaiting) RelationJoined u =
     (if awaiting = None \<and> u \<notin> present then Some (Active (insert u present) (Some u))
      else None)"
| "protocol_step (Active present awaiting) RelationChanged u =
     (if awaiting = Some u \<or> (awaiting = None \<and> u \<in> present) then Some (Active present None)
      else None)"
| "protocol_step (Active present awaiting) RelationDeparted u =
     (if awaiting = None \<and> u \<in> present then Some (Active (present - {u}) None) else None)"
| "protocol_step (Active present awaiting) RelationBroken u =
     (if present = {} then Some TornDown else None)"
| "protocol_step (Active present awaiting) (OtherKind k) u = None"

fun follows_protocol :: "int \<Rightarrow> protocol_state \<Rightarrow> Info list \<Rightarrow> bool" where
  "follows_protocol rid st [] = True"
| "follows_protocol rid st (e # es) =
     (RelationId e = rid \<and>
      (case protocol_step st (Kind e) (RemoteUnit e) of
         None \<Rightarrow> False
       | Some st' \<Rightarrow> follows_protocol rid st' es))"

text \<open>A cached state that stands for a state of the protocol.\<close>

fun tracks :: "protocol_state \<Rightarrow> State \<Rightarrow> bool" where
  "tracks TornDown s = (Members s = None)"
| "tracks (Active present awaiting) s =
     (case Members s of
        None \<Rightarrow> False
      | Some m \<Rightarrow>
          dom m = present \<and>
          (case awaiting of
             None \<Rightarrow> ChangedPending s = ''''
           | Some u \<Rightarrow> ChangedPending s = u \<and> u \<in> present))"

subsection \<open>What a directory holds\<close>

text \<open>
  The state that the records of a directory stand for, read off the directory as a map
  from entry names to nodes: a directory can be loaded when every entry that matches the
  unit file pattern records a change version and at most one of them carries the pending
  flag; the members are the units of the matching entries with their versions; the
  pending unit is the unit of the entry that carries the flag, or empty.
\<close>

definition loadable :: "(string \<rightharpoonup> node) \<Rightarrow> bool" where
  "loadable dir =
     ((\<forall>name\<in>dom dir. is_unit_file name \<longrightarrow> version_of dir name \<noteq> None)
      \<and> (\<forall>n1 n2. pending_file dir n1 \<and> pending_file dir n2 \<longrightarrow> n1 = n2))"

definition members_of :: "(string \<rightharpoonup> node) \<Rightarrow> (string \<rightharpoonup> int)" where
  "members_of dir =
     (\<lambda>u. if unit_of_file (file_of_unit u) = Some u then version_of dir (file_of_unit u)
          else None)"

definition pending_unit :: "(string \<rightharpoonup> node) \<Rightarrow> string \<Rightarrow> bool" where
  "pending_unit dir c =
     (if c = '''' then (\<forall>name. \<not> pending_file dir name)
      else pending_file dir (file_of_unit c) \<and> unit_of_file (file_of_unit c) = Some c)"

subsection \<open>The scenario of the spec\<close>

text \<open>
  The concrete scenario of section 8 of the spec: relation 7 and the unit
  \<^verbatim>\<open>wordpress/0\<close>, under a root directory \<^verbatim>\<open>/relations\<close>. The values below are the file
  systems and the state directories the scenario passes through; the theorems that use
  them show that the functions compute them.
\<close>

definition scn_root :: filepath where
  "scn_root = [''relations'']"

definition scn_fs_absent :: node where
  "scn_fs_absent = Dir [(''relations'', Dir [])]"

definition scn_fs_empty :: node where
  "scn_fs_empty = Dir [(''relations'', Dir [(''7'', Dir [])])]"

definition scn_fs_joined :: node where
  "scn_fs_joined =
     Dir [(''relations'', Dir [(''7'', Dir [(''wordpress-0'',
        File (Yaml \<lparr>di_ChangeVersion = Some 1, di_ChangedPending = True\<rparr>))])])]"

definition scn_fs_changed :: node where
  "scn_fs_changed =
     Dir [(''relations'', Dir [(''7'', Dir [(''wordpress-0'',
        File (Yaml \<lparr>di_ChangeVersion = Some 2, di_ChangedPending = False\<rparr>))])])]"

definition scn_dir :: "(string \<rightharpoonup> int) option \<Rightarrow> string \<Rightarrow> StateDir" where
  "scn_dir members pending =
     \<lparr>path = [''relations'', ''7''],
      state = \<lparr>StateRelationId = 7, Members = members, ChangedPending = pending\<rparr>\<rparr>"

definition scn_event :: "Kind \<Rightarrow> string \<Rightarrow> int \<Rightarrow> Info" where
  "scn_event k u v = \<lparr>Kind = k, RelationId = 7, RemoteUnit = u, ChangeVersion = v\<rparr>"

text \<open>A root directory with an entry named by a negative number and one that is no number.\<close>

definition neg_fs :: node where
  "neg_fs = Dir [(''relations'', Dir [(''-5'', Dir []), (''notes'', Dir [])])]"

text \<open>
  Two corrupt directories of relation 7: a record without the change version, and two
  records that both carry the pending flag.
\<close>

definition bad_version_dir :: "(string \<times> node) list" where
  "bad_version_dir =
     [(''wordpress-0'', File (Yaml \<lparr>di_ChangeVersion = None, di_ChangedPending = False\<rparr>))]"

definition bad_pending_dir :: "(string \<times> node) list" where
  "bad_pending_dir =
     [(''mysql-1'', File (Yaml \<lparr>di_ChangeVersion = Some 3, di_ChangedPending = True\<rparr>)),
      (''wordpress-0'', File (Yaml \<lparr>di_ChangeVersion = Some 1, di_ChangedPending = True\<rparr>))]"

definition fs_with :: "(string \<times> node) list \<Rightarrow> node" where
  "fs_with es = Dir [(''relations'', Dir [(''7'', Dir es)])]"

section \<open>Basic facts\<close>


lemma copy_id: "copy s = s"
  by (cases "Members s") (simp_all add: copy_def)

lemma State_of_state: "State_of d = state d"
  by (simp add: State_of_def copy_id)

lemma walk_append:
  "walk n (p @ q) = (case walk n p of Inl err \<Rightarrow> Inl err | Inr m \<Rightarrow> walk m q)"
proof (induction p arbitrary: n)
  case Nil
  show ?case by simp
next
  case (Cons x xs)
  show ?case
    by (cases n) (simp_all add: Cons.IH split: option.split)
qed

lemma Remove_gone: "Remove n p = Inr n' \<Longrightarrow> walk n' p = Inl ENOENT"
proof (induction n p arbitrary: n' rule: Remove.induct)
  case (3 es x)
  then show ?case
    by (auto simp: delete_conv' split: option.splits node.splits if_splits)
next
  case (4 es x y ys)
  then show ?case
    by (auto simp: update_conv' split: option.splits sum.splits)
qed simp_all

lemma Remove_again: "Remove n p = Inr n' \<Longrightarrow> Remove n' p = Inl ENOENT"
proof (induction n p arbitrary: n' rule: Remove.induct)
  case (3 es x)
  then show ?case
    by (auto simp: delete_conv' split: option.splits node.splits if_splits)
next
  case (4 es x y ys)
  then show ?case
    by (auto simp: update_conv' split: option.splits sum.splits)
qed simp_all

lemma Remove_absent: "Remove n p = Inl ENOENT \<Longrightarrow> walk n p = Inl ENOENT"
proof (induction n p rule: Remove.induct)
  case (3 es x)
  then show ?case
    by (auto split: option.splits node.splits if_splits)
next
  case (4 es x y ys)
  then show ?case
    by (auto split: option.splits sum.splits)
qed simp_all

lemma WriteYaml_again: "WriteYaml n p di = Inr n' \<Longrightarrow> WriteYaml n' p di = Inr n'"
proof (induction n p di arbitrary: n' rule: WriteYaml.induct)
  case (3 es x di)
  then show ?case
    by (auto simp: update_conv' split: option.splits node.splits)
next
  case (4 es x y ys di)
  then show ?case
    by (auto simp: update_conv' split: option.splits sum.splits)
qed simp_all


lemma walk_absent_Remove: "walk n p = Inl ENOENT \<Longrightarrow> Remove n p = Inl ENOENT"
proof (induction n p rule: Remove.induct)
  case (3 es x)
  then show ?case
    by (auto split: option.splits node.splits if_splits)
next
  case (4 es x y ys)
  then show ?case
    by (auto split: option.splits sum.splits)
qed simp_all


lemma ReadStateDir_Members:
  "ReadStateDir fs dirPath relationId = Inr d \<Longrightarrow> Members (state d) \<noteq> None"
  unfolding ReadStateDir_def Let_def
  by (auto split: sum.splits if_splits prod.splits)



subsection \<open>What a successful Write did\<close>

lemma Write_broken:
  "Kind e = RelationBroken \<Longrightarrow> Write fs d e = (Inr ok, fs', d') \<Longrightarrow>
     walk fs' (path d) = Inl ENOENT \<and> d' = d\<lparr>state := (state d)\<lparr>Members := None\<rparr>\<rparr>"
  by (cases "Remove fs (path d)")
     (auto simp: Write_def IsNotExist_def split: if_splits dest: Remove_gone Remove_absent)

lemma Write_recorded:
  assumes "Kind j \<noteq> RelationBroken" "Kind j \<noteq> RelationDeparted"
    and "Write fs d j = (Inr ok, fs', d')"
  shows "\<exists>m. Members (state d) = Some m
           \<and> state d' = (state d)\<lparr>Members := Some (m(RemoteUnit j \<mapsto> ChangeVersion j)),
                  ChangedPending := (if Kind j = RelationJoined then RemoteUnit j else '''')\<rparr>
           \<and> path d' = path d"
proof -
  define p where "p = Join (path d) (Replace (RemoteUnit j) CHR ''/'' CHR ''-'')"
  define di where "di = \<lparr>di_ChangeVersion = Some (ChangeVersion j),
                          di_ChangedPending = (Kind j = RelationJoined)\<rparr>"
  show ?thesis
  proof (cases "WriteYaml fs p di")
    case (Inl err)
    with assms show ?thesis
      by (simp add: Write_def p_def di_def Let_def)
  next
    case (Inr fs'')
    with assms show ?thesis
      by (cases "Members (state d)") (auto simp: Write_def p_def di_def Let_def)
  qed
qed

subsection \<open>The scenario, computed\<close>


lemma Itoa_7: "Itoa 7 = ''7''"
  by (simp add: Itoa_def uitoa.simps digit_char_def)

lemma scn_fresh: "fresh_dir scn_root 7 = scn_dir (Some Map.empty) ''''"
  by (simp add: fresh_dir_def fresh_state_def scn_root_def scn_dir_def Itoa_7)

lemma scn_load_absent: "ReadStateDir scn_fs_absent scn_root 7 = Inr (scn_dir (Some Map.empty) '''')"
  by (simp add: ReadStateDir_def Stat_def IsNotExist_def scn_fs_absent_def scn_root_def
                scn_dir_def Itoa_7)

lemma scn_ensure: "Ensure scn_fs_absent (scn_dir (Some Map.empty) '''') = Inr scn_fs_empty"
  by (simp add: Ensure_def scn_fs_absent_def scn_fs_empty_def scn_dir_def)

lemma scn_write_joined:
  "Write scn_fs_empty (scn_dir (Some Map.empty) '''') (scn_event RelationJoined ''wordpress/0'' 1)
     = (Inr (), scn_fs_joined, scn_dir (Some [''wordpress/0'' \<mapsto> 1]) ''wordpress/0'')"
  by (simp add: Write_def Join_def scn_fs_empty_def scn_fs_joined_def scn_dir_def scn_event_def)

lemma scn_write_changed:
  "Write scn_fs_joined (scn_dir (Some [''wordpress/0'' \<mapsto> 1]) ''wordpress/0'')
         (scn_event RelationChanged ''wordpress/0'' 2)
     = (Inr (), scn_fs_changed, scn_dir (Some [''wordpress/0'' \<mapsto> 2]) '''')"
  by (simp add: Write_def Join_def scn_fs_joined_def scn_fs_changed_def scn_dir_def scn_event_def)

lemma scn_write_departed:
  "Write scn_fs_changed (scn_dir (Some [''wordpress/0'' \<mapsto> 2]) '''')
         (scn_event RelationDeparted ''wordpress/0'' 2)
     = (Inr (), scn_fs_empty, scn_dir (Some Map.empty) '''')"
  by (simp add: Write_def Join_def scn_fs_empty_def scn_fs_changed_def scn_dir_def scn_event_def
                IsNotExist_def)

lemma scn_write_departed_pending:
  "Write scn_fs_joined (scn_dir (Some [''wordpress/0'' \<mapsto> 1]) ''wordpress/0'')
         (scn_event RelationDeparted ''wordpress/0'' 1)
     = (Inr (), scn_fs_empty, scn_dir (Some Map.empty) ''wordpress/0'')"
  by (simp add: Write_def Join_def scn_fs_empty_def scn_fs_joined_def scn_dir_def scn_event_def
                IsNotExist_def)

lemma scn_write_broken:
  "Write scn_fs_empty (scn_dir (Some Map.empty) '''') (scn_event RelationBroken '''' 0)
     = (Inr (), scn_fs_absent, scn_dir None '''')"
  by (simp add: Write_def scn_fs_empty_def scn_fs_absent_def scn_dir_def scn_event_def
                IsNotExist_def)

lemma unit_of_file_wordpress: "unit_of_file ''wordpress-0'' = Some ''wordpress/0''"
  by (simp add: unit_of_file_def Atoi_def digit_val_def)

lemma scn_load_joined:
  "ReadStateDir scn_fs_joined scn_root 7
     = Inr (scn_dir (Some [''wordpress/0'' \<mapsto> 1]) ''wordpress/0'')"
  by (simp add: ReadStateDir_def Stat_def IsNotExist_def ReadDir_def ReadYaml_def entry_names_def
        scn_fs_joined_def scn_root_def scn_dir_def Itoa_7 Atoi_def digit_val_def Let_def)

lemma scn_load_empty:
  "ReadStateDir scn_fs_empty scn_root 7 = Inr (scn_dir (Some Map.empty) '''')"
  by (simp add: ReadStateDir_def Stat_def IsNotExist_def ReadDir_def ReadYaml_def entry_names_def
        scn_fs_empty_def scn_root_def scn_dir_def Itoa_7)

subsection \<open>The cached state follows the protocol\<close>


lemma Write_departed_state:
  assumes "Kind e = RelationDeparted" and "Write fs d e = (Inr ok, fs', d')"
  shows "d' = d\<lparr>state := (state d)\<lparr>Members :=
                 map_option (\<lambda>m. m(RemoteUnit e := None)) (Members (state d))\<rparr>\<rparr>"
proof -
  define p where "p = Join (path d) (Replace (RemoteUnit e) CHR ''/'' CHR ''-'')"
  show ?thesis
  proof (cases "Remove fs p")
    case (Inl err)
    with assms show ?thesis
      by (cases "err = ENOENT") (simp_all add: Write_def p_def Let_def IsNotExist_def)
  next
    case (Inr fs'')
    with assms show ?thesis
      by (simp add: Write_def p_def Let_def)
  qed
qed

lemma protocol_accepts:
  assumes "tracks st s" and "RelationId e = StateRelationId s"
    and "protocol_step st (Kind e) (RemoteUnit e) = Some st'"
  shows "Validate s e = Inr ()"
proof (cases st)
  case TornDown
  with assms show ?thesis by simp
next
  case (Active present awaiting)
  with assms(1) obtain m where m: "Members s = Some m" "dom m = present"
    by (auto split: option.splits)
  from assms Active m show ?thesis
    by (cases "Kind e")
       (auto simp: Validate_def Let_def split: option.splits if_splits)
qed

lemma Write_tracks:
  assumes "tracks st (state d)"
    and "protocol_step st (Kind e) (RemoteUnit e) = Some st'"
    and "Write fs d e = (Inr ok, fs', d')"
  shows "tracks st' (state d') \<and> StateRelationId (state d') = StateRelationId (state d)"
proof (cases st)
  case TornDown
  with assms show ?thesis by simp
next
  case (Active present awaiting)
  with assms(1) obtain m where m: "Members (state d) = Some m" "dom m = present"
    by (auto split: option.splits)
  show ?thesis
  proof (cases "Kind e")
    case RelationJoined
    with Write_recorded [of e fs d ok fs' d'] assms Active m show ?thesis
      by (auto split: if_splits)
  next
    case RelationChanged
    with Write_recorded [of e fs d ok fs' d'] assms Active m show ?thesis
      by (auto split: if_splits option.splits)
  next
    case RelationDeparted
    with Write_departed_state [of e fs d ok fs' d'] assms Active m show ?thesis
      by (auto split: if_splits)
  next
    case RelationBroken
    with Write_broken [of e fs d ok fs' d'] assms Active show ?thesis
      by (auto split: if_splits)
  next
    case (OtherKind k)
    with assms Active show ?thesis by simp
  qed
qed

lemma run_tracks:
  "tracks st (state d) \<Longrightarrow> StateRelationId (state d) = rid \<Longrightarrow> follows_protocol rid st evs
     \<Longrightarrow> run fs d evs \<noteq> Rejected err"
proof (induction evs arbitrary: st fs d)
  case Nil
  show ?case by simp
next
  case (Cons e es)
  from Cons.prems obtain st' where
    e: "RelationId e = rid" "protocol_step st (Kind e) (RemoteUnit e) = Some st'"
      "follows_protocol rid st' es"
    by (auto split: option.splits)
  have v: "Validate (State_of d) e = Inr ()"
    using protocol_accepts [of st "state d" e st'] Cons.prems e by (simp add: State_of_state)
  obtain r fs' d' where w: "Write fs d e = (r, fs', d')"
    by (cases "Write fs d e") auto
  show ?case
  proof (cases r)
    case (Inl fault)
    with v w show ?thesis by simp
  next
    case (Inr ok)
    with Write_tracks [of st d e st' fs ok fs' d'] Cons.prems e w
    have "tracks st' (state d')" "StateRelationId (state d') = rid"
      by simp_all
    from Cons.IH [OF this e(3)] v w Inr show ?thesis
      by simp
  qed
qed

subsection \<open>The bulk loader\<close>


lemma load_dirs_filter:
  "load_dirs fs p fis ds = load_dirs fs p (filter (\<lambda>name. Atoi name \<noteq> None) fis) ds"
proof (induction fis arbitrary: ds)
  case Nil
  show ?case by simp
next
  case (Cons name fis)
  show ?case
  proof (cases "Atoi name")
    case None
    with Cons.IH [of ds] show ?thesis by simp
  next
    case (Some n)
    show ?thesis
    proof (cases "ReadStateDir fs p n")
      case (Inl err)
      with Some show ?thesis by simp
    next
      case (Inr dir)
      with Some Cons.IH [of "ds(n \<mapsto> dir)"] show ?thesis by (simp del: fun_upd_apply)
    qed
  qed
qed

lemma load_dirs_dom:
  "load_dirs fs p fis ds = Inr ds' \<Longrightarrow>
     dom ds' = dom ds \<union> {n. \<exists>name\<in>set fis. Atoi name = Some n}"
proof (induction fis arbitrary: ds)
  case Nil
  then show ?case by simp
next
  case (Cons name fis)
  show ?case
  proof (cases "Atoi name")
    case None
    with Cons.prems have "load_dirs fs p fis ds = Inr ds'" by simp
    from Cons.IH [OF this] None show ?thesis by auto
  next
    case (Some n)
    with Cons.prems obtain dir where dir: "ReadStateDir fs p n = Inr dir"
      and rest: "load_dirs fs p fis (ds(n \<mapsto> dir)) = Inr ds'"
      by (cases "ReadStateDir fs p n") simp_all
    have "dom ds' = insert n (dom ds) \<union> {k. \<exists>name\<in>set fis. Atoi name = Some k}"
      using Cons.IH [OF rest] by (simp del: fun_upd_apply)
    with Some show ?thesis
      by auto
  qed
qed

lemma ReadDir_Stat: "ReadDir fs p = Inr fis \<Longrightarrow> \<exists>fi. Stat fs p = Inr fi"
  by (cases "walk fs p") (simp_all add: ReadDir_def Stat_def)

lemma Itoa_neg5: "Itoa (- 5) = ''-5''"
  by (simp add: Itoa_def uitoa.simps digit_char_def)

lemma neg_names: "ReadDir neg_fs scn_root = Inr [''-5'', ''notes'']"
  by (simp add: ReadDir_def neg_fs_def scn_root_def entry_names_def)

lemma neg_load: "ReadStateDir neg_fs scn_root (- 5)
    = Inr \<lparr>path = [''relations'', ''-5''], state = fresh_state (- 5)\<rparr>"
  by (simp add: ReadStateDir_def Stat_def ReadDir_def neg_fs_def scn_root_def entry_names_def
                Itoa_neg5 fresh_state_def)

lemma neg_stat: "Stat neg_fs scn_root = Inr (Dir [(''-5'', Dir []), (''notes'', Dir [])])"
  by (simp add: Stat_def neg_fs_def scn_root_def)

lemma neg_all: "ReadAllStateDirs neg_fs scn_root
    = Inr (Some [- 5 \<mapsto> \<lparr>path = [''relations'', ''-5''], state = fresh_state (- 5)\<rparr>])"
  by (simp add: ReadAllStateDirs_def neg_stat neg_names neg_load Atoi_def digit_val_def)

subsection \<open>File names and unit names\<close>


lemma LastIndex_None: "(LastIndex s c = None) = (c \<notin> set s)"
  by (induction s) (auto split: option.splits)

lemma LastIndex_Some:
  "LastIndex s c = Some i \<Longrightarrow> i < length s \<and> s ! i = c \<and> c \<notin> set (drop (Suc i) s)"
proof (induction s arbitrary: i)
  case Nil
  then show ?case by simp
next
  case (Cons x xs)
  show ?case
  proof (cases "LastIndex xs c")
    case None
    with Cons.prems have "x = c" "i = 0"
      by (auto split: if_splits)
    with None show ?thesis
      by (simp add: LastIndex_None)
  next
    case (Some j)
    with Cons.prems have "i = Suc j" by simp
    with Cons.IH [OF Some] show ?thesis by simp
  qed
qed

lemma LastIndex_split:
  "LastIndex s c = Some i \<Longrightarrow> s = take i s @ c # drop (Suc i) s"
  using LastIndex_Some [of s c i] by (auto simp: id_take_nth_drop)

lemma LastIndex_append: "c \<notin> set ys \<Longrightarrow> LastIndex (xs @ c # ys) c = Some (length xs)"
proof (induction xs)
  case Nil
  then have "LastIndex ys c = None" by (simp add: LastIndex_None)
  then show ?case by simp
next
  case (Cons x xs)
  then show ?case by simp
qed

lemma Replace_first: "a \<notin> set xs \<Longrightarrow> Replace (xs @ a # ys) a b = xs @ b # ys"
  by (induction xs) auto

lemma parse_uint_digits: "parse_uint ds acc = Some n \<Longrightarrow> c \<in> set ds \<Longrightarrow> digit_val c \<noteq> None"
  by (induction ds arbitrary: acc) (auto split: option.splits)

lemma digit_val_slash: "digit_val CHR ''/'' = None"
  by (simp add: digit_val_def)

lemma Atoi_digits:
  "Atoi s = Some n \<Longrightarrow>
     \<exists>ds. parse_uint ds 0 \<noteq> None \<and> (s = ds \<or> s = CHR ''+'' # ds \<or> s = CHR ''-'' # ds)"
  by (cases s)
     (auto simp: Atoi_def Let_def simp del: parse_uint.simps split: if_splits option.splits)

lemma Atoi_no_slash: "Atoi s = Some n \<Longrightarrow> CHR ''/'' \<notin> set s"
proof
  assume a: "Atoi s = Some n" and m: "CHR ''/'' \<in> set s"
  from Atoi_digits [OF a] obtain ds where ds: "parse_uint ds 0 \<noteq> None"
    "s = ds \<or> s = CHR ''+'' # ds \<or> s = CHR ''-'' # ds"
    by blast
  from ds(2) m have "CHR ''/'' \<in> set ds" by auto
  with ds(1) parse_uint_digits [of ds 0 _ "CHR ''/''"] digit_val_slash show False
    by auto
qed

lemma file_of_unit_inverse: "unit_of_file name = Some u \<Longrightarrow> file_of_unit u = name"
proof -
  assume a: "unit_of_file name = Some u"
  then obtain i k where i: "LastIndex name CHR ''-'' = Some i"
    and k: "Atoi (drop (Suc i) name) = Some k"
    and u: "u = take i name @ CHR ''/'' # drop (Suc i) name"
    by (auto simp: unit_of_file_def split: option.splits)
  from LastIndex_Some [OF i] have len: "i < length name" by simp
  from Atoi_no_slash [OF k] have "LastIndex u CHR ''/'' = Some (length (take i name))"
    unfolding u by (rule LastIndex_append)
  with len have "LastIndex u CHR ''/'' = Some i" by simp
  moreover from len have "take i u = take i name" "drop (Suc i) u = drop (Suc i) name"
    by (simp_all add: u)
  ultimately have "file_of_unit u = take i name @ CHR ''-'' # drop (Suc i) name"
    by (simp add: file_of_unit_def)
  with LastIndex_split [OF i] show ?thesis by simp
qed

lemma split_sep_plain: "CHR ''/'' \<notin> set name \<Longrightarrow> split_sep name = [name]"
  by (induction name) auto

lemma Join_plain:
  "CHR ''/'' \<notin> set name \<Longrightarrow> CHR ''-'' \<in> set name \<Longrightarrow> Join p name = p @ [name]"
  by (auto simp: Join_def split_sep_plain)

lemma unit_name_ok_file:
  assumes "unit_name_ok u"
  shows "unit_of_file (Replace u CHR ''/'' CHR ''-'') = Some u"
    and "Join p (Replace u CHR ''/'' CHR ''-'') = p @ [Replace u CHR ''/'' CHR ''-'']"
proof -
  from assms obtain i where i: "LastIndex u CHR ''/'' = Some i"
    and svc0: "CHR ''/'' \<notin> set (take i u)" and num0: "CHR ''-'' \<notin> set (drop (Suc i) u)"
    and at0: "Atoi (drop (Suc i) u) \<noteq> None"
    by (auto simp: unit_name_ok_def split: option.splits)
  define svc where "svc = take i u"
  define num where "num = drop (Suc i) u"
  from svc0 have svc: "CHR ''/'' \<notin> set svc" by (simp add: svc_def)
  from num0 have num: "CHR ''-'' \<notin> set num" by (simp add: num_def)
  from at0 obtain k where at: "Atoi num = Some k" by (auto simp: num_def)
  from LastIndex_split [OF i] have u: "u = svc @ CHR ''/'' # num"
    by (simp add: svc_def num_def)
  have r: "Replace u CHR ''/'' CHR ''-'' = svc @ CHR ''-'' # num"
    by (subst u) (rule Replace_first [OF svc])
  have li: "LastIndex (svc @ CHR ''-'' # num) CHR ''-'' = Some (length svc)"
    by (rule LastIndex_append [OF num])
  show "unit_of_file (Replace u CHR ''/'' CHR ''-'') = Some u"
    by (simp add: r unit_of_file_def li at) (simp add: u)
  from Atoi_no_slash [OF at] svc have "CHR ''/'' \<notin> set (svc @ CHR ''-'' # num)"
    by simp
  then show "Join p (Replace u CHR ''/'' CHR ''-'') = p @ [Replace u CHR ''/'' CHR ''-'']"
    unfolding r by (rule Join_plain) simp
qed


subsection \<open>One step of the loader\<close>


lemma ReadYaml_entry:
  "walk fs p = Inr (Dir es) \<Longrightarrow>
     ReadYaml fs (p @ [name]) =
       (case map_of es name of
          None \<Rightarrow> Inl (ReadFailed ENOENT)
        | Some (Dir ds) \<Rightarrow> Inl (ReadFailed EISDIR)
        | Some (File Unparsable) \<Rightarrow> Inl BadYaml
        | Some (File (Yaml di)) \<Rightarrow> Inr di)"
  by (simp add: ReadYaml_def walk_append split: option.split node.split content.split)

lemma ReadYaml_record:
  "walk fs p = Inr (Dir es) \<Longrightarrow>
     (ReadYaml fs (p @ [name]) = Inr di) = (record_of (map_of es) name = Some di)"
  by (auto simp: ReadYaml_entry record_of_def split: option.split node.split content.split)

lemma unit_of_file_nonempty: "unit_of_file name = Some u \<Longrightarrow> u \<noteq> []"
  by (auto simp: unit_of_file_def split: option.splits)

lemma load_units_skip:
  "unit_of_file name = None \<Longrightarrow> load_units fs p (name # fis) st = load_units fs p fis st"
  by (cases st) (auto simp: unit_of_file_def Let_def split: option.splits)

lemma load_units_unreadable:
  assumes "walk fs p = Inr (Dir es)" and "unit_of_file name = Some u"
    and "record_of (map_of es) name = None"
  shows "isl (load_units fs p (name # fis) st)"
proof -
  from assms(1,3) obtain err where "ReadYaml fs (p @ [name]) = Inl err"
    using ReadYaml_record [of fs p es name] by (cases "ReadYaml fs (p @ [name])") auto
  with assms(2) show ?thesis
    by (cases st) (auto simp: unit_of_file_def Let_def split: option.splits)
qed

lemma load_units_record:
  assumes "walk fs p = Inr (Dir es)" and "unit_of_file name = Some u"
    and "record_of (map_of es) name = Some di"
  shows "load_units fs p (name # fis) (m, c) =
           (case di_ChangeVersion di of
              None \<Rightarrow> Inl (VersionNotSet name)
            | Some v \<Rightarrow>
                if di_ChangedPending di
                then (if c \<noteq> '''' then Inl (BothPending c u)
                      else load_units fs p fis (m(u \<mapsto> v), u))
                else load_units fs p fis (m(u \<mapsto> v), c))"
proof -
  from assms(1,3) have "ReadYaml fs (p @ [name]) = Inr di"
    by (simp add: ReadYaml_record)
  with assms(2) show ?thesis
    by (auto simp: unit_of_file_def Let_def split: option.splits)
qed


text \<open>From here on the loop is unfolded through the three lemmas above.\<close>

declare load_units.simps(2) [simp del]

subsection \<open>Directories the loader refuses\<close>


lemma load_units_missing_version:
  assumes w: "walk fs p = Inr (Dir es)"
  shows "name \<in> set fis \<Longrightarrow> is_unit_file name \<Longrightarrow> version_of (map_of es) name = None
           \<Longrightarrow> isl (load_units fs p fis st)"
proof (induction fis arbitrary: st)
  case Nil
  then show ?case by simp
next
  case (Cons h fis)
  obtain m c where st: "st = (m, c)" by (cases st)
  show ?case
  proof (cases "unit_of_file h")
    case None
    with Cons.prems have "name \<in> set fis" by (auto simp: is_unit_file_def)
    with Cons None show ?thesis by (simp add: load_units_skip)
  next
    case (Some u)
    show ?thesis
    proof (cases "record_of (map_of es) h")
      case None
      from load_units_unreadable [OF w Some None] show ?thesis .
    next
      case di: (Some di)
      show ?thesis
      proof (cases "di_ChangeVersion di")
        case None
        then show ?thesis
          by (simp add: st load_units_record [OF w Some di])
      next
        case v: (Some v)
        with di Cons.prems have "name \<in> set fis"
          by (auto simp: version_of_def)
        from Cons.IH [OF this Cons.prems(2,3)] v show ?thesis
          by (simp add: st load_units_record [OF w Some di])
      qed
    qed
  qed
qed

lemma load_units_second_pending:
  assumes w: "walk fs p = Inr (Dir es)"
  shows "c \<noteq> '''' \<Longrightarrow> name \<in> set fis \<Longrightarrow> pending_file (map_of es) name
           \<Longrightarrow> isl (load_units fs p fis (m, c))"
proof (induction fis arbitrary: m)
  case Nil
  then show ?case by simp
next
  case (Cons h fis)
  show ?case
  proof (cases "unit_of_file h")
    case None
    with Cons.prems have "name \<in> set fis" by (auto simp: pending_file_def is_unit_file_def)
    with Cons None show ?thesis by (simp add: load_units_skip)
  next
    case (Some u)
    show ?thesis
    proof (cases "record_of (map_of es) h")
      case None
      from load_units_unreadable [OF w Some None] show ?thesis .
    next
      case di: (Some di)
      show ?thesis
      proof (cases "di_ChangeVersion di")
        case None
        then show ?thesis
          by (simp add: load_units_record [OF w Some di])
      next
        case v: (Some v)
        show ?thesis
        proof (cases "di_ChangedPending di")
          case True
          with v Cons.prems(1) show ?thesis
            by (simp add: load_units_record [OF w Some di])
        next
          case False
          with di Cons.prems have "name \<in> set fis"
            by (auto simp: pending_file_def)
          from Cons.IH [OF Cons.prems(1) this Cons.prems(3)] v False show ?thesis
            by (simp add: load_units_record [OF w Some di])
        qed
      qed
    qed
  qed
qed

lemma load_units_two_pending:
  assumes w: "walk fs p = Inr (Dir es)"
  shows "n1 \<in> set fis \<Longrightarrow> n2 \<in> set fis \<Longrightarrow> n1 \<noteq> n2 \<Longrightarrow> pending_file (map_of es) n1
           \<Longrightarrow> pending_file (map_of es) n2 \<Longrightarrow> isl (load_units fs p fis (m, c))"
proof (induction fis arbitrary: m c)
  case Nil
  then show ?case by simp
next
  case (Cons h fis)
  show ?case
  proof (cases "unit_of_file h")
    case None
    with Cons.prems have "n1 \<in> set fis" "n2 \<in> set fis"
      by (auto simp: pending_file_def is_unit_file_def)
    with Cons None show ?thesis by (simp add: load_units_skip)
  next
    case (Some u)
    show ?thesis
    proof (cases "record_of (map_of es) h")
      case None
      from load_units_unreadable [OF w Some None] show ?thesis .
    next
      case di: (Some di)
      show ?thesis
      proof (cases "di_ChangeVersion di")
        case None
        then show ?thesis
          by (simp add: load_units_record [OF w Some di])
      next
        case v: (Some v)
        show ?thesis
        proof (cases "di_ChangedPending di")
          case True
          from Cons.prems obtain n where n: "n \<in> set fis" "pending_file (map_of es) n"
            by (cases "h = n1") auto
          from unit_of_file_nonempty [OF Some] have "u \<noteq> ''''" .
          from load_units_second_pending [OF w this n] v True show ?thesis
            by (simp add: load_units_record [OF w Some di])
        next
          case False
          with di Cons.prems have "n1 \<in> set fis" "n2 \<in> set fis"
            by (auto simp: pending_file_def)
          from Cons.IH [OF this Cons.prems(3,4,5)] v False show ?thesis
            by (simp add: load_units_record [OF w Some di])
        qed
      qed
    qed
  qed
qed

lemma set_entry_names: "set (entry_names es) = dom (map_of es)"
  by (simp add: entry_names_def dom_map_of_conv_image_fst)

lemma distinct_entry_names: "distinct (entry_names es)"
  by (simp add: entry_names_def)

lemma record_of_dom: "record_of dir name = Some di \<Longrightarrow> name \<in> dom dir"
  by (auto simp: record_of_def split: option.splits)

lemma ReadStateDir_listed:
  "walk fs (dirPath @ [Itoa relationId]) = Inr (Dir es) \<Longrightarrow>
     ReadStateDir fs dirPath relationId =
       (case load_units fs (dirPath @ [Itoa relationId]) (entry_names es) (Map.empty, '''') of
          Inl err \<Rightarrow> Inl err
        | Inr (members, pending) \<Rightarrow>
            Inr \<lparr>path = dirPath @ [Itoa relationId],
                 state = \<lparr>StateRelationId = relationId, Members = Some members,
                          ChangedPending = pending\<rparr>\<rparr>)"
  by (simp add: ReadStateDir_def Stat_def ReadDir_def split: sum.split prod.split)



subsection \<open>Changing one entry of a directory\<close>

lemma WriteYaml_below:
  "q \<noteq> [] \<Longrightarrow> WriteYaml (Dir es) (x # q) di =
     (case map_of es x of
        None \<Rightarrow> Inl ENOENT
      | Some n \<Rightarrow>
          (case WriteYaml n q di of
             Inl err \<Rightarrow> Inl err
           | Inr n' \<Rightarrow> Inr (Dir (AList.update x n' es))))"
  by (cases q) (auto split: option.split sum.split)

lemma Remove_below:
  "q \<noteq> [] \<Longrightarrow> Remove (Dir es) (x # q) =
     (case map_of es x of
        None \<Rightarrow> Inl ENOENT
      | Some n \<Rightarrow>
          (case Remove n q of
             Inl err \<Rightarrow> Inl err
           | Inr n' \<Rightarrow> Inr (Dir (AList.update x n' es))))"
  by (cases q) (auto split: option.split sum.split)

lemma WriteYaml_entry:
  "WriteYaml fs (p @ [name]) di = Inr fs' \<Longrightarrow> walk fs p = Inr (Dir es) \<Longrightarrow>
     walk fs' p = Inr (Dir (AList.update name (File (Yaml di)) es))"
proof (induction p arbitrary: fs fs')
  case Nil
  then show ?case
    by (auto split: option.splits node.splits)
next
  case (Cons x xs)
  from Cons.prems(2) obtain es0 where fs: "fs = Dir es0"
    by (cases fs) simp_all
  from Cons.prems(2) fs obtain n where n: "map_of es0 x = Some n" "walk n xs = Inr (Dir es)"
    by (auto split: option.splits)
  from Cons.prems(1) fs n obtain n' where n': "WriteYaml n (xs @ [name]) di = Inr n'"
    "fs' = Dir (AList.update x n' es0)"
    by (auto simp: WriteYaml_below split: sum.splits)
  from Cons.IH [OF n'(1) n(2)] n'(2) show ?case
    by (simp add: update_conv')
qed

lemma Remove_entry:
  "Remove fs (p @ [name]) = Inr fs' \<Longrightarrow> walk fs p = Inr (Dir es) \<Longrightarrow>
     walk fs' p = Inr (Dir (AList.delete name es))"
proof (induction p arbitrary: fs fs')
  case Nil
  then show ?case
    by (auto split: option.splits node.splits if_splits)
next
  case (Cons x xs)
  from Cons.prems(2) obtain es0 where fs: "fs = Dir es0"
    by (cases fs) simp_all
  from Cons.prems(2) fs obtain n where n: "map_of es0 x = Some n" "walk n xs = Inr (Dir es)"
    by (auto split: option.splits)
  from Cons.prems(1) fs n obtain n' where n': "Remove n (xs @ [name]) = Inr n'"
    "fs' = Dir (AList.update x n' es0)"
    by (auto simp: Remove_below split: sum.splits)
  from Cons.IH [OF n'(1) n(2)] n'(2) show ?case
    by (simp add: update_conv')
qed

lemma Remove_entry_absent:
  "Remove fs (p @ [name]) = Inl ENOENT \<Longrightarrow> walk fs p = Inr (Dir es) \<Longrightarrow>
     map_of es name = None"
  using Remove_absent [of fs "p @ [name]"]
  by (auto simp: walk_append split: option.splits)

lemma EnsureDir_new: "EnsureDir (Dir []) p = Inr n \<Longrightarrow> walk n p = Inr (Dir [])"
proof (induction p arbitrary: n)
  case Nil
  then show ?case by simp
next
  case (Cons x xs)
  then show ?case
    by (auto split: sum.splits)
qed

lemma EnsureDir_absent:
  "walk fs p = Inl ENOENT \<Longrightarrow> EnsureDir fs p = Inr fs' \<Longrightarrow> walk fs' p = Inr (Dir [])"
proof (induction p arbitrary: fs fs')
  case Nil
  then show ?case by simp
next
  case (Cons x xs)
  from Cons.prems(1) obtain es where fs: "fs = Dir es"
    by (cases fs) simp_all
  show ?case
  proof (cases "map_of es x")
    case None
    with Cons.prems(2) fs obtain n' where "EnsureDir (Dir []) xs = Inr n'"
      "fs' = Dir (AList.update x n' es)"
      by (auto split: sum.splits)
    with EnsureDir_new [of xs n'] show ?thesis
      by (simp add: update_conv')
  next
    case (Some n)
    with Cons.prems fs obtain n' where "EnsureDir n xs = Inr n'"
      "fs' = Dir (AList.update x n' es)" "walk n xs = Inl ENOENT"
      by (auto split: sum.splits)
    with Cons.IH [of n n'] show ?thesis
      by (simp add: update_conv')
  qed
qed

lemma EnsureDir_present: "walk fs p = Inr (Dir es) \<Longrightarrow> EnsureDir fs p = Inr fs"
proof (induction p arbitrary: fs)
  case Nil
  then show ?case by simp
next
  case (Cons x xs)
  from Cons.prems obtain es0 where fs: "fs = Dir es0"
    by (cases fs) simp_all
  from Cons.prems fs obtain n where n: "map_of es0 x = Some n" "walk n xs = Inr (Dir es)"
    by (auto split: option.splits)
  from Cons.IH [OF n(2)] n(1) fs show ?case
    by (simp add: update_triv)
qed



subsection \<open>What the loader returns\<close>

lemma load_units_versions:
  assumes "walk fs p = Inr (Dir es)" and "load_units fs p fis st = Inr r"
    and "name \<in> set fis" and "is_unit_file name"
  shows "version_of (map_of es) name \<noteq> None"
  using load_units_missing_version [OF assms(1,3,4), of st] assms(2)
  by auto

lemma load_units_one_pending:
  assumes "walk fs p = Inr (Dir es)" and "load_units fs p fis (m, c) = Inr r"
    and "n1 \<in> set fis" "n2 \<in> set fis"
    and "pending_file (map_of es) n1" "pending_file (map_of es) n2"
  shows "n1 = n2"
  using load_units_two_pending [OF assms(1,3,4) _ assms(5,6), of m c] assms(2)
  by auto

lemma load_units_keeps_pending:
  assumes w: "walk fs p = Inr (Dir es)"
  shows "c \<noteq> '''' \<or> (\<forall>name\<in>set fis. \<not> pending_file (map_of es) name)
           \<Longrightarrow> load_units fs p fis (m, c) = Inr (m', c') \<Longrightarrow> c' = c"
proof (induction fis arbitrary: m)
  case Nil
  then show ?case by simp
next
  case (Cons h fis)
  from Cons.prems(1)
  have rest: "c \<noteq> '''' \<or> (\<forall>name\<in>set fis. \<not> pending_file (map_of es) name)"
    by auto
  show ?case
  proof (cases "unit_of_file h")
    case None
    with Cons.prems(2) Cons.IH [OF rest] show ?thesis
      by (simp add: load_units_skip)
  next
    case (Some u)
    show ?thesis
    proof (cases "record_of (map_of es) h")
      case None
      from load_units_unreadable [OF w Some None, of fis "(m, c)"] Cons.prems(2)
      show ?thesis by simp
    next
      case di: (Some di)
      from Cons.prems(2) obtain v where v: "di_ChangeVersion di = Some v"
        by (cases "di_ChangeVersion di") (simp_all add: load_units_record [OF w Some di])
      show ?thesis
      proof (cases "di_ChangedPending di")
        case True
        with Some di have "pending_file (map_of es) h"
          by (simp add: pending_file_def is_unit_file_def)
        with Cons.prems(1) have "c \<noteq> ''''" by auto
        with Cons.prems(2) v True show ?thesis
          by (simp add: load_units_record [OF w Some di])
      next
        case False
        with Cons.prems(2) v Cons.IH [OF rest] show ?thesis
          by (simp add: load_units_record [OF w Some di])
      qed
    qed
  qed
qed

lemma load_units_pending_unit:
  assumes w: "walk fs p = Inr (Dir es)"
  shows "load_units fs p fis (m, c) = Inr (m', c') \<Longrightarrow> name \<in> set fis
           \<Longrightarrow> pending_file (map_of es) name \<Longrightarrow> unit_of_file name = Some c'"
proof (induction fis arbitrary: m c)
  case Nil
  then show ?case by simp
next
  case (Cons h fis)
  show ?case
  proof (cases "unit_of_file h")
    case None
    with Cons.prems have "name \<in> set fis"
      by (auto simp: pending_file_def is_unit_file_def)
    with Cons None show ?thesis
      by (simp add: load_units_skip)
  next
    case (Some u)
    show ?thesis
    proof (cases "record_of (map_of es) h")
      case None
      from load_units_unreadable [OF w Some None, of fis "(m, c)"] Cons.prems(1)
      show ?thesis by simp
    next
      case di: (Some di)
      from Cons.prems(1) obtain v where v: "di_ChangeVersion di = Some v"
        by (cases "di_ChangeVersion di") (simp_all add: load_units_record [OF w Some di])
      show ?thesis
      proof (cases "di_ChangedPending di")
        case True
        with Cons.prems(1) v have c: "c = ''''"
          and rest: "load_units fs p fis (m(u \<mapsto> v), u) = Inr (m', c')"
          by (auto simp: load_units_record [OF w Some di] split: if_splits)
        from unit_of_file_nonempty [OF Some] have "u \<noteq> ''''" .
        then have c': "c' = u"
          using load_units_keeps_pending [OF w _ rest] by simp
        show ?thesis
        proof (cases "name = h")
          case True
          with Some c' show ?thesis by simp
        next
          case False
          with Cons.prems(2) have "name \<in> set fis" by simp
          from load_units_second_pending [OF w \<open>u \<noteq> ''''\<close> this Cons.prems(3), of "m(u \<mapsto> v)"]
            rest
          show ?thesis by simp
        qed
      next
        case False
        with di Cons.prems have "name \<in> set fis"
          by (auto simp: pending_file_def)
        moreover from Cons.prems(1) v False
        have "load_units fs p fis (m(u \<mapsto> v), c) = Inr (m', c')"
          by (simp add: load_units_record [OF w Some di])
        ultimately show ?thesis
          using Cons.IH Cons.prems(3) by blast
      qed
    qed
  qed
qed

lemma load_units_members:
  assumes w: "walk fs p = Inr (Dir es)"
  shows "load_units fs p fis (m, c) = Inr (m', c') \<Longrightarrow>
           m' u = (if file_of_unit u \<in> set fis \<and> unit_of_file (file_of_unit u) = Some u
                   then version_of (map_of es) (file_of_unit u) else m u)"
proof (induction fis arbitrary: m c)
  case Nil
  then show ?case by simp
next
  case (Cons h fis)
  show ?case
  proof (cases "unit_of_file h")
    case None
    with Cons.prems have "load_units fs p fis (m, c) = Inr (m', c')"
      by (simp add: load_units_skip)
    from Cons.IH [OF this] None show ?thesis
      by auto
  next
    case (Some uh)
    show ?thesis
    proof (cases "record_of (map_of es) h")
      case None
      from load_units_unreadable [OF w Some None, of fis "(m, c)"] Cons.prems(1)
      show ?thesis by simp
    next
      case di: (Some di)
      from Cons.prems(1) obtain v where v: "di_ChangeVersion di = Some v"
        by (cases "di_ChangeVersion di") (simp_all add: load_units_record [OF w Some di])
      from Cons.prems(1) v obtain c1 where
        rest: "load_units fs p fis (m(uh \<mapsto> v), c1) = Inr (m', c')"
        by (auto simp: load_units_record [OF w Some di] split: if_splits)
      note ih = Cons.IH [OF rest]
      have vh: "version_of (map_of es) h = Some v"
        using di v by (simp add: version_of_def)
      have fh: "file_of_unit uh = h"
        using Some by (rule file_of_unit_inverse)
      show ?thesis
      proof (cases "u = uh")
        case True
        with ih fh vh Some show ?thesis by simp
      next
        case False
        with Some have "\<not> (file_of_unit u = h \<and> unit_of_file (file_of_unit u) = Some u)"
          by auto
        with ih False show ?thesis by auto
      qed
    qed
  qed
qed

lemma load_units_succeeds:
  assumes w: "walk fs p = Inr (Dir es)"
  shows "distinct fis \<Longrightarrow>
         (\<forall>name\<in>set fis. is_unit_file name \<longrightarrow> version_of (map_of es) name \<noteq> None) \<Longrightarrow>
         (c = '''' \<and> (\<forall>n1\<in>set fis. \<forall>n2\<in>set fis.
              pending_file (map_of es) n1 \<and> pending_file (map_of es) n2 \<longrightarrow> n1 = n2))
         \<or> (\<forall>name\<in>set fis. \<not> pending_file (map_of es) name) \<Longrightarrow>
         \<exists>r. load_units fs p fis (m, c) = Inr r"
proof (induction fis arbitrary: m c)
  case Nil
  show ?case by simp
next
  case (Cons h fis)
  from Cons.prems have d: "distinct fis" "h \<notin> set fis"
    and good: "\<forall>name\<in>set fis. is_unit_file name \<longrightarrow> version_of (map_of es) name \<noteq> None"
    by simp_all
  from Cons.prems(3) have pend:
    "(c = '''' \<and> (\<forall>n1\<in>set fis. \<forall>n2\<in>set fis.
          pending_file (map_of es) n1 \<and> pending_file (map_of es) n2 \<longrightarrow> n1 = n2))
     \<or> (\<forall>name\<in>set fis. \<not> pending_file (map_of es) name)"
    by auto
  show ?case
  proof (cases "unit_of_file h")
    case None
    with Cons.IH [OF d(1) good pend] show ?thesis
      by (simp add: load_units_skip)
  next
    case (Some u)
    with Cons.prems(2) obtain v where vh: "version_of (map_of es) h = Some v"
      by (auto simp: is_unit_file_def)
    then obtain di where di: "record_of (map_of es) h = Some di" "di_ChangeVersion di = Some v"
      by (auto simp: version_of_def split: option.splits)
    show ?thesis
    proof (cases "di_ChangedPending di")
      case True
      with Some di have ph: "pending_file (map_of es) h"
        by (simp add: pending_file_def is_unit_file_def)
      with Cons.prems(3) have c: "c = ''''" and
        uniq: "\<forall>n\<in>set fis. pending_file (map_of es) n \<longrightarrow> n = h"
        by auto
      from uniq d(2) have none: "\<forall>name\<in>set fis. \<not> pending_file (map_of es) name"
        by auto
      then have "(u = '''' \<and> (\<forall>n1\<in>set fis. \<forall>n2\<in>set fis.
          pending_file (map_of es) n1 \<and> pending_file (map_of es) n2 \<longrightarrow> n1 = n2))
         \<or> (\<forall>name\<in>set fis. \<not> pending_file (map_of es) name)"
        by simp
      from Cons.IH [OF d(1) good this, of "m(u \<mapsto> v)"] c True di show ?thesis
        by (simp add: load_units_record [OF w Some di(1)] del: fun_upd_apply)
    next
      case False
      with Cons.IH [OF d(1) good pend, of "m(u \<mapsto> v)"] di show ?thesis
        by (simp add: load_units_record [OF w Some di(1)] del: fun_upd_apply)
    qed
  qed
qed



subsection \<open>The loaded state, read off the directory\<close>

lemma pending_file_dom: "pending_file dir name \<Longrightarrow> name \<in> dom dir"
  by (auto simp: pending_file_def split: option.splits dest: record_of_dom)

lemma version_of_dom: "version_of dir name = Some v \<Longrightarrow> name \<in> dom dir"
  by (auto simp: version_of_def split: option.splits dest: record_of_dom)

lemma pending_unit_unique:
  assumes "loadable dir" and "pending_unit dir c" and "pending_unit dir c'"
  shows "c = c'"
proof (cases "c = '''' \<or> c' = ''''")
  case True
  with assms(2,3) show ?thesis
    by (auto simp: pending_unit_def split: if_splits)
next
  case False
  with assms(2,3) have p: "pending_file dir (file_of_unit c)" "pending_file dir (file_of_unit c')"
    and u: "unit_of_file (file_of_unit c) = Some c" "unit_of_file (file_of_unit c') = Some c'"
    by (simp_all add: pending_unit_def)
  from assms(1) p have "file_of_unit c = file_of_unit c'"
    by (auto simp: loadable_def)
  with u show ?thesis by (metis option.inject)
qed

lemma ReadStateDir_loaded:
  assumes w: "walk fs (dirPath @ [Itoa relationId]) = Inr (Dir es)"
    and r: "ReadStateDir fs dirPath relationId = Inr d"
  shows "loadable (map_of es)"
    and "pending_unit (map_of es) (ChangedPending (state d))"
    and "d = \<lparr>path = dirPath @ [Itoa relationId],
               state = \<lparr>StateRelationId = relationId, Members = Some (members_of (map_of es)),
                        ChangedPending = ChangedPending (state d)\<rparr>\<rparr>"
proof -
  define p where "p = dirPath @ [Itoa relationId]"
  define M where "M = map_of es"
  note w' = w [folded p_def]
  from r obtain m c where
    l: "load_units fs p (entry_names es) (Map.empty, '''') = Inr (m, c)"
    and d: "d = \<lparr>path = p, state = \<lparr>StateRelationId = relationId, Members = Some m,
                                     ChangedPending = c\<rparr>\<rparr>"
    by (auto simp: ReadStateDir_listed [OF w] p_def split: sum.splits)
  show lo: "loadable (map_of es)"
    unfolding loadable_def
  proof (intro conjI ballI allI impI)
    fix name assume "name \<in> dom (map_of es)" "is_unit_file name"
    then show "version_of (map_of es) name \<noteq> None"
      using load_units_versions [OF w' l] by (simp add: set_entry_names)
  next
    fix n1 n2 assume "pending_file (map_of es) n1 \<and> pending_file (map_of es) n2"
    then show "n1 = n2"
      using load_units_one_pending [OF w' l, of n1 n2]
      by (auto simp: set_entry_names dest: pending_file_dom)
  qed
  have "m u = members_of (map_of es) u" for u
    using load_units_members [OF w' l, of u]
    by (cases "version_of (map_of es) (file_of_unit u)")
       (auto simp: members_of_def set_entry_names dest: version_of_dom)
  then have m: "m = members_of (map_of es)"
    by (rule ext)
  have c: "pending_unit (map_of es) c"
  proof (cases "\<exists>name. pending_file (map_of es) name")
    case True
    then obtain name where n: "pending_file (map_of es) name" ..
    then have "name \<in> set (entry_names es)"
      by (simp add: set_entry_names pending_file_dom)
    from load_units_pending_unit [OF w' l this n] have u: "unit_of_file name = Some c" .
    from file_of_unit_inverse [OF u] unit_of_file_nonempty [OF u] n u show ?thesis
      by (simp add: pending_unit_def)
  next
    case False
    then have "c = ''''"
      using load_units_keeps_pending [OF w' _ l] by simp
    with False show ?thesis
      by (simp add: pending_unit_def)
  qed
  from c d show "pending_unit (map_of es) (ChangedPending (state d))"
    by simp
  from d m show "d = \<lparr>path = dirPath @ [Itoa relationId],
               state = \<lparr>StateRelationId = relationId, Members = Some (members_of (map_of es)),
                        ChangedPending = ChangedPending (state d)\<rparr>\<rparr>"
    by (simp add: p_def)
qed

lemma ReadStateDir_loadable:
  assumes w: "walk fs (dirPath @ [Itoa relationId]) = Inr (Dir es)"
    and lo: "loadable (map_of es)" and pu: "pending_unit (map_of es) c"
  shows "ReadStateDir fs dirPath relationId =
           Inr \<lparr>path = dirPath @ [Itoa relationId],
                state = \<lparr>StateRelationId = relationId, Members = Some (members_of (map_of es)),
                         ChangedPending = c\<rparr>\<rparr>"
proof -
  from lo have good: "\<forall>name\<in>set (entry_names es).
      is_unit_file name \<longrightarrow> version_of (map_of es) name \<noteq> None"
    by (simp add: loadable_def set_entry_names)
  from lo have "('''' = '''' \<and> (\<forall>n1\<in>set (entry_names es). \<forall>n2\<in>set (entry_names es).
        pending_file (map_of es) n1 \<and> pending_file (map_of es) n2 \<longrightarrow> n1 = n2))
      \<or> (\<forall>name\<in>set (entry_names es). \<not> pending_file (map_of es) name)"
    by (auto simp: loadable_def)
  from load_units_succeeds [OF w distinct_entry_names good this, of Map.empty]
  obtain r where "load_units fs (dirPath @ [Itoa relationId]) (entry_names es)
      (Map.empty, '''') = Inr r" ..
  then obtain d where d: "ReadStateDir fs dirPath relationId = Inr d"
    by (cases r) (simp add: ReadStateDir_listed [OF w])
  have "ChangedPending (state d) = c"
    using lo ReadStateDir_loaded(2) [OF w d] pu by (rule pending_unit_unique)
  with ReadStateDir_loaded(3) [OF w d] d show ?thesis
    by simp
qed

section \<open>Validation order\<close>

text \<open>
  C1. For every state and every event, \<open>Validate\<close> returns what the spec's ordered list
  of checks returns: wrong relation first, then the torn-down sentinel, then the
  teardown event (ok exactly when there are no members), then the pending unit (ok only
  for a changed event of that unit), then membership (a joined event for a member and a
  non-joined event for a non-member are refused), and ok otherwise.
\<close>

theorem Validate_follows_spec_order: "Validate s e = Validate_spec s e"
  by (cases "Members s")
     (auto simp: Validate_def Validate_spec_def torn_down_def no_members_def
                 pending_set_def is_member_def Let_def)

text \<open>
  The order at work: for a torn-down state of relation 7, an event of relation 8 is
  refused for its relation id, and an event of relation 7 for the teardown.
\<close>

theorem Validate_follows_spec_order_witness:
  "Validate (state (scn_dir None ''wordpress/0''))
       \<lparr>Kind = RelationBroken, RelationId = 8, RemoteUnit = ''wordpress/0'', ChangeVersion = 0\<rparr>
     = Inl (WrongRelation 7 8)
   \<and> Validate (state (scn_dir None ''wordpress/0'')) (scn_event RelationBroken ''wordpress/0'' 0)
     = Inl RelationAlreadyBroken"
  using Validate_follows_spec_order [of "state (scn_dir None ''wordpress/0'')"
          "\<lparr>Kind = RelationBroken, RelationId = 8, RemoteUnit = ''wordpress/0'',
             ChangeVersion = 0\<rparr>"]
        Validate_follows_spec_order [of "state (scn_dir None ''wordpress/0'')"
          "scn_event RelationBroken ''wordpress/0'' 0"]
  by (simp add: Validate_spec_def torn_down_def scn_dir_def scn_event_def)

section \<open>Writing twice\<close>

text \<open>
  C2. For every file system, every state directory and every event, two calls of \<open>Write\<close>
  in succession with the event leave the same file system and the same cached state
  (and return the same outcome) as one call.
\<close>

theorem Write_idempotent: "Write_twice fs d hi = Write fs d hi"
proof (cases "Kind hi = RelationBroken")
  case True
  show ?thesis
  proof (cases "Remove fs (path d)")
    case (Inl err)
    with True show ?thesis
      by (simp add: Write_twice_def Write_def IsNotExist_def)
  next
    case (Inr fs')
    with True Remove_again [OF Inr] show ?thesis
      by (simp add: Write_twice_def Write_def IsNotExist_def)
  qed
next
  case notBroken: False
  define p where "p = Join (path d) (Replace (RemoteUnit hi) CHR ''/'' CHR ''-'')"
  show ?thesis
  proof (cases "Kind hi = RelationDeparted")
    case True
    show ?thesis
    proof (cases "Remove fs p")
      case (Inl err)
      with True notBroken show ?thesis
        by (simp add: Write_twice_def Write_def IsNotExist_def p_def Let_def
                      option.map_comp comp_def)
    next
      case (Inr fs')
      with True notBroken Remove_again [OF Inr] show ?thesis
        by (simp add: Write_twice_def Write_def IsNotExist_def p_def Let_def
                      option.map_comp comp_def)
    qed
  next
    case False
    define di where "di = \<lparr>di_ChangeVersion = Some (ChangeVersion hi),
                            di_ChangedPending = (Kind hi = RelationJoined)\<rparr>"
    show ?thesis
    proof (cases "WriteYaml fs p di")
      case (Inl err)
      with False notBroken show ?thesis
        by (simp add: Write_twice_def Write_def p_def di_def Let_def)
    next
      case (Inr fs')
      with False notBroken WriteYaml_again [OF Inr] show ?thesis
        by (cases "Members (state d)")
           (simp_all add: Write_twice_def Write_def p_def di_def Let_def)
    qed
  qed
qed


text \<open>The joined event of the scenario, recorded twice.\<close>

theorem Write_idempotent_witness:
  "Write_twice scn_fs_empty (scn_dir (Some Map.empty) '''')
       (scn_event RelationJoined ''wordpress/0'' 1)
     = (Inr (), scn_fs_joined, scn_dir (Some [''wordpress/0'' \<mapsto> 1]) ''wordpress/0'')"
  using Write_idempotent [of scn_fs_empty "scn_dir (Some Map.empty) ''''"
          "scn_event RelationJoined ''wordpress/0'' 1"]
  by (simp add: scn_write_joined)

section \<open>Sequences that follow the protocol\<close>

text \<open>
  C4. For every sequence of events that follows the protocol of section 4.1 from a
  relation without history (a unit joins, gets its changed event next, then further
  changed events, then departs; teardown only once no unit is present), validating each
  event against the cached state and then recording it never ends in a validation
  error, whatever the file system does: the loop either completes or stops at an event
  that could not be recorded.
\<close>

theorem protocol_never_rejected:
  assumes "follows_protocol rid (Active {} None) evs" and "state d = fresh_state rid"
  shows "run fs d evs \<noteq> Rejected err"
  using assms run_tracks [of "Active {} None" d rid evs fs err]
  by (simp add: fresh_state_def)

text \<open>The scenario of the spec: joined, changed, departed, teardown.\<close>

theorem protocol_never_rejected_witness:
  "follows_protocol 7 (Active {} None)
     [scn_event RelationJoined ''wordpress/0'' 1, scn_event RelationChanged ''wordpress/0'' 2,
      scn_event RelationDeparted ''wordpress/0'' 2, scn_event RelationBroken '''' 0]
   \<and> state (scn_dir (Some Map.empty) '''') = fresh_state 7
   \<and> run scn_fs_empty (scn_dir (Some Map.empty) '''')
       [scn_event RelationJoined ''wordpress/0'' 1, scn_event RelationChanged ''wordpress/0'' 2,
        scn_event RelationDeparted ''wordpress/0'' 2, scn_event RelationBroken '''' 0]
     = Completed scn_fs_absent (scn_dir None '''')"
proof -
  have p: "follows_protocol 7 (Active {} None)
     [scn_event RelationJoined ''wordpress/0'' 1, scn_event RelationChanged ''wordpress/0'' 2,
      scn_event RelationDeparted ''wordpress/0'' 2, scn_event RelationBroken '''' 0]"
    by (simp add: scn_event_def)
  have f: "state (scn_dir (Some Map.empty) '''') = fresh_state 7"
    by (simp add: scn_dir_def fresh_state_def)
  have v1: "Validate (state (scn_dir (Some Map.empty) ''''))
              (scn_event RelationJoined ''wordpress/0'' 1) = Inr ()"
    by (simp add: Validate_def scn_dir_def scn_event_def)
  have v2: "Validate (state (scn_dir (Some [''wordpress/0'' \<mapsto> 1]) ''wordpress/0''))
              (scn_event RelationChanged ''wordpress/0'' 2) = Inr ()"
    by (simp add: Validate_def scn_dir_def scn_event_def)
  have v3: "Validate (state (scn_dir (Some [''wordpress/0'' \<mapsto> 2]) ''''))
              (scn_event RelationDeparted ''wordpress/0'' 2) = Inr ()"
    by (simp add: Validate_def scn_dir_def scn_event_def)
  have v4: "Validate (state (scn_dir (Some Map.empty) ''''))
              (scn_event RelationBroken '''' 0) = Inr ()"
    by (simp add: Validate_def scn_dir_def scn_event_def)
  have r: "run scn_fs_empty (scn_dir (Some Map.empty) '''')
       [scn_event RelationJoined ''wordpress/0'' 1, scn_event RelationChanged ''wordpress/0'' 2,
        scn_event RelationDeparted ''wordpress/0'' 2, scn_event RelationBroken '''' 0]
     = Completed scn_fs_absent (scn_dir None '''')"
    by (simp add: State_of_state v1 v2 v3 v4 scn_write_joined scn_write_changed
                  scn_write_departed scn_write_broken)
  from protocol_never_rejected [OF p f, of scn_fs_empty RelationAlreadyBroken] p f r
  show ?thesis by simp
qed

section \<open>After a joined event\<close>

text \<open>
  C5, as amended. After a joined event for a unit \<open>u\<close> with a non-empty name was
  recorded, the pending unit is \<open>u\<close>, and of the events that carry the relation's id
  \<open>Validate\<close> accepts only a changed event for \<open>u\<close>; it refuses the teardown event with
  \<open>UnitsStillPresent\<close> (the teardown check comes before the pending check, and \<open>u\<close> is a
  member), and every other event, also one for another unit, with
  \<open>PendingChangeRequired\<close>.
\<close>

theorem after_joined_only_changed:
  assumes "Kind j = RelationJoined" and "RemoteUnit j = u" and "u \<noteq> ''''"
    and "Write fs d j = (Inr ok, fs', d')"
    and "RelationId e = StateRelationId (state d')"
  shows "ChangedPending (state d') = u
     \<and> Validate (state d') e =
          (if Kind e = RelationBroken then Inl UnitsStillPresent
           else if Kind e = RelationChanged \<and> RemoteUnit e = u then Inr ()
           else Inl (PendingChangeRequired u))"
proof -
  from assms Write_recorded [of j fs d ok fs' d']
  obtain m where "state d' = (state d)\<lparr>Members := Some (m(u \<mapsto> ChangeVersion j)),
                  ChangedPending := u\<rparr>"
    by auto
  with assms(3,5) show ?thesis
    by (auto simp: Validate_def Let_def)
qed

text \<open>
  In the scenario: after the joined event of \<^verbatim>\<open>wordpress/0\<close>, a departed event for the
  unit \<^verbatim>\<open>mysql/1\<close> is refused with \<open>PendingChangeRequired\<close>.
\<close>

theorem after_joined_only_changed_witness:
  "Kind (scn_event RelationJoined ''wordpress/0'' 1) = RelationJoined
   \<and> RemoteUnit (scn_event RelationJoined ''wordpress/0'' 1) = ''wordpress/0''
   \<and> Write scn_fs_empty (scn_dir (Some Map.empty) '''')
         (scn_event RelationJoined ''wordpress/0'' 1)
       = (Inr (), scn_fs_joined, scn_dir (Some [''wordpress/0'' \<mapsto> 1]) ''wordpress/0'')
   \<and> Validate (state (scn_dir (Some [''wordpress/0'' \<mapsto> 1]) ''wordpress/0''))
         (scn_event RelationDeparted ''mysql/1'' 1)
       = Inl (PendingChangeRequired ''wordpress/0'')"
  using after_joined_only_changed [of "scn_event RelationJoined ''wordpress/0'' 1"
          "''wordpress/0''" scn_fs_empty "scn_dir (Some Map.empty) ''''" "()" scn_fs_joined
          "scn_dir (Some [''wordpress/0'' \<mapsto> 1]) ''wordpress/0''"
          "scn_event RelationDeparted ''mysql/1'' 1"]
        scn_write_joined
  by (simp add: scn_event_def scn_dir_def)

text \<open>
  The claim as stated fails for the teardown event: after the joined event of the
  scenario, the teardown event of relation 7 is refused with \<open>UnitsStillPresent\<close>, not
  with \<open>PendingChangeRequired\<close>.
\<close>

theorem after_joined_teardown_counterexample:
  "Write scn_fs_empty (scn_dir (Some Map.empty) '''')
         (scn_event RelationJoined ''wordpress/0'' 1)
       = (Inr (), scn_fs_joined, scn_dir (Some [''wordpress/0'' \<mapsto> 1]) ''wordpress/0'')
   \<and> RelationId (scn_event RelationBroken ''wordpress/0'' 1)
       = StateRelationId (state (scn_dir (Some [''wordpress/0'' \<mapsto> 1]) ''wordpress/0''))
   \<and> Validate (state (scn_dir (Some [''wordpress/0'' \<mapsto> 1]) ''wordpress/0''))
         (scn_event RelationBroken ''wordpress/0'' 1)
       = Inl UnitsStillPresent
   \<and> Validate (state (scn_dir (Some [''wordpress/0'' \<mapsto> 1]) ''wordpress/0''))
         (scn_event RelationBroken ''wordpress/0'' 1)
       \<noteq> Inl (PendingChangeRequired ''wordpress/0'')"
  by (simp add: scn_write_joined) (simp add: Validate_def scn_event_def scn_dir_def)

section \<open>Which entries the bulk loader reads\<close>

text \<open>
  C6, as amended. \<open>ReadAllStateDirs\<close> reads the entries of the root directory whose names
  parse as an integer with \<^verbatim>\<open>strconv.Atoi\<close>, negative numbers included, and ignores every
  other entry: the result is the one for the listing without the names that do not
  parse, and when it is a map, its keys are exactly the integers that the names of the
  listing parse to.
\<close>

theorem ReadAllStateDirs_integer_names:
  assumes "ReadDir fs dirPath = Inr fis"
  shows "ReadAllStateDirs fs dirPath =
           (case load_dirs fs dirPath (filter (\<lambda>name. Atoi name \<noteq> None) fis) Map.empty of
              Inl err \<Rightarrow> Inl err
            | Inr dirs \<Rightarrow> Inr (Some dirs))
         \<and> (ReadAllStateDirs fs dirPath = Inr (Some dirs) \<longrightarrow>
              dom dirs = {n. \<exists>name\<in>set fis. Atoi name = Some n})"
proof -
  from ReadDir_Stat [OF assms] obtain fi where "Stat fs dirPath = Inr fi" ..
  with assms have eq: "ReadAllStateDirs fs dirPath =
      (case load_dirs fs dirPath fis Map.empty of Inl err \<Rightarrow> Inl err
       | Inr dirs \<Rightarrow> Inr (Some dirs))"
    by (simp add: ReadAllStateDirs_def)
  have "dom dirs = {n. \<exists>name\<in>set fis. Atoi name = Some n}"
    if "ReadAllStateDirs fs dirPath = Inr (Some dirs)"
  proof -
    from that eq have "load_dirs fs dirPath fis Map.empty = Inr dirs"
      by (cases "load_dirs fs dirPath fis Map.empty") simp_all
    from load_dirs_dom [OF this] show ?thesis by simp
  qed
  with eq load_dirs_filter [of fs dirPath fis Map.empty] show ?thesis
    by simp
qed

text \<open>
  For the root with the entries \<^verbatim>\<open>-5\<close> and \<^verbatim>\<open>notes\<close>: the second does not parse and is
  dropped from the listing.
\<close>

theorem ReadAllStateDirs_integer_names_witness:
  "ReadDir neg_fs scn_root = Inr [''-5'', ''notes'']
   \<and> Atoi ''notes'' = None
   \<and> ReadAllStateDirs neg_fs scn_root =
       (case load_dirs neg_fs scn_root [''-5''] Map.empty of
          Inl err \<Rightarrow> Inl err
        | Inr dirs \<Rightarrow> Inr (Some dirs))"
  using ReadAllStateDirs_integer_names [OF neg_names, of Map.empty]
  by (simp add: neg_names Atoi_def digit_val_def)

text \<open>
  The claim as stated fails for a negative number: the entry \<^verbatim>\<open>-5\<close> does not parse as a
  non-negative integer, and the result holds the state directory of relation \<open>-5\<close>.
\<close>

theorem negative_name_counterexample:
  "ReadDir neg_fs scn_root = Inr [''-5'', ''notes'']
   \<and> Atoi ''-5'' = Some (- 5)
   \<and> ReadAllStateDirs neg_fs scn_root
       = Inr (Some [- 5 \<mapsto> \<lparr>path = [''relations'', ''-5''], state = fresh_state (- 5)\<rparr>])"
  by (simp add: neg_names neg_all Atoi_def digit_val_def)

section \<open>Recording a departed event\<close>

text \<open>
  C7. \<open>Write\<close> of a departed event for a unit \<open>u\<close> removes the record file of \<open>u\<close> and, when
  that succeeded or the file was already absent, removes \<open>u\<close> from the cached members and
  leaves everything else of the cached state as it was: the pending unit is unchanged,
  also when it is \<open>u\<close>. When the file cannot be removed for another reason, the call
  fails and changes nothing.
\<close>

theorem Write_departed:
  assumes dep: "Kind e = RelationDeparted"
    and w: "Write fs d e = (r, fs', d')"
    and p: "p = Join (path d) (Replace (RemoteUnit e) CHR ''/'' CHR ''-'')"
  shows "(case r of
            Inl fault \<Rightarrow> fs' = fs \<and> d' = d \<and> Stat fs p \<noteq> Inl ENOENT
          | Inr ok \<Rightarrow>
              Members (state d') = map_option (\<lambda>m. m(RemoteUnit e := None)) (Members (state d))
              \<and> \<not> is_member (state d') (RemoteUnit e)
              \<and> ChangedPending (state d') = ChangedPending (state d)
              \<and> StateRelationId (state d') = StateRelationId (state d)
              \<and> path d' = path d
              \<and> Stat fs' p = Inl ENOENT
              \<and> (Stat fs p = Inl ENOENT \<longrightarrow> fs' = fs))"
proof (cases "Remove fs p")
  case (Inl err)
  show ?thesis
  proof (cases "err = ENOENT")
    case True
    with Inl have "walk fs p = Inl ENOENT"
      by (simp add: Remove_absent)
    with Inl True dep w p show ?thesis
      by (cases "Members (state d)")
         (auto simp: Write_def Let_def IsNotExist_def Stat_def is_member_def)
  next
    case False
    with Inl have "walk fs p \<noteq> Inl ENOENT"
      using walk_absent_Remove [of fs p] by auto
    with Inl False dep w p show ?thesis
      by (auto simp: Write_def Let_def IsNotExist_def Stat_def)
  qed
next
  case (Inr fs'')
  then have "walk fs'' p = Inl ENOENT" "walk fs p \<noteq> Inl ENOENT"
    using walk_absent_Remove [of fs p] by (auto dest: Remove_gone)
  with Inr dep w p show ?thesis
    by (cases "Members (state d)")
       (auto simp: Write_def Let_def IsNotExist_def Stat_def is_member_def)
qed

text \<open>
  In the scenario, a departed event for \<^verbatim>\<open>wordpress/0\<close> recorded while that unit is the
  pending one: the file is removed, the unit is no member any more, and it is still the
  pending unit.
\<close>

theorem Write_departed_witness:
  "Kind (scn_event RelationDeparted ''wordpress/0'' 1) = RelationDeparted
   \<and> Write scn_fs_joined (scn_dir (Some [''wordpress/0'' \<mapsto> 1]) ''wordpress/0'')
         (scn_event RelationDeparted ''wordpress/0'' 1)
       = (Inr (), scn_fs_empty, scn_dir (Some Map.empty) ''wordpress/0'')
   \<and> ChangedPending (state (scn_dir (Some Map.empty) ''wordpress/0'')) = ''wordpress/0''
   \<and> \<not> is_member (state (scn_dir (Some Map.empty) ''wordpress/0'')) ''wordpress/0''
   \<and> Stat scn_fs_empty [''relations'', ''7'', ''wordpress-0''] = Inl ENOENT"
  using Write_departed [of "scn_event RelationDeparted ''wordpress/0'' 1" scn_fs_joined
          "scn_dir (Some [''wordpress/0'' \<mapsto> 1]) ''wordpress/0''" "Inr ()" scn_fs_empty
          "scn_dir (Some Map.empty) ''wordpress/0''" "[''relations'', ''7'', ''wordpress-0'']"]
        scn_write_departed_pending
  by (simp add: scn_event_def scn_dir_def Join_def)

section \<open>Corrupt directories\<close>

text \<open>
  C8. When the directory of the relation exists and some entry whose name matches the
  unit file pattern is a record without the change version, or two different entries
  that match the pattern are records that carry the pending flag, \<open>ReadStateDir\<close> returns
  an error and no state directory.
\<close>

theorem corrupt_directory_not_loaded:
  assumes w: "walk fs (dirPath @ [Itoa relationId]) = Inr (Dir es)"
    and c: "(is_unit_file name \<and> record_of (map_of es) name = Some di
              \<and> di_ChangeVersion di = None)
          \<or> (n1 \<noteq> n2 \<and> pending_file (map_of es) n1 \<and> pending_file (map_of es) n2)"
  shows "isl (ReadStateDir fs dirPath relationId)"
proof -
  have "isl (load_units fs (dirPath @ [Itoa relationId]) (entry_names es) (Map.empty, ''''))"
    using c
  proof
    assume a: "is_unit_file name \<and> record_of (map_of es) name = Some di
                 \<and> di_ChangeVersion di = None"
    then have "name \<in> set (entry_names es)" "version_of (map_of es) name = None"
      by (auto simp: set_entry_names version_of_def dest: record_of_dom)
    with a load_units_missing_version [OF w] show ?thesis by blast
  next
    assume a: "n1 \<noteq> n2 \<and> pending_file (map_of es) n1 \<and> pending_file (map_of es) n2"
    then have "n1 \<in> set (entry_names es)" "n2 \<in> set (entry_names es)"
      by (auto simp: set_entry_names pending_file_def split: option.splits dest: record_of_dom)
    with a load_units_two_pending [OF w] show ?thesis by blast
  qed
  then show ?thesis
    by (cases "load_units fs (dirPath @ [Itoa relationId]) (entry_names es) (Map.empty, '''')")
       (simp_all add: ReadStateDir_listed [OF w])
qed

text \<open>The two corrupt directories of relation 7.\<close>

theorem corrupt_directory_not_loaded_witness:
  "walk (fs_with bad_version_dir) (scn_root @ [Itoa 7]) = Inr (Dir bad_version_dir)
   \<and> is_unit_file ''wordpress-0''
   \<and> record_of (map_of bad_version_dir) ''wordpress-0''
       = Some \<lparr>di_ChangeVersion = None, di_ChangedPending = False\<rparr>
   \<and> isl (ReadStateDir (fs_with bad_version_dir) scn_root 7)
   \<and> walk (fs_with bad_pending_dir) (scn_root @ [Itoa 7]) = Inr (Dir bad_pending_dir)
   \<and> pending_file (map_of bad_pending_dir) ''mysql-1''
   \<and> pending_file (map_of bad_pending_dir) ''wordpress-0''
   \<and> isl (ReadStateDir (fs_with bad_pending_dir) scn_root 7)"
proof -
  have w1: "walk (fs_with bad_version_dir) (scn_root @ [Itoa 7]) = Inr (Dir bad_version_dir)"
    and w2: "walk (fs_with bad_pending_dir) (scn_root @ [Itoa 7]) = Inr (Dir bad_pending_dir)"
    by (simp_all add: fs_with_def scn_root_def Itoa_7)
  have u: "is_unit_file ''wordpress-0''" "is_unit_file ''mysql-1''"
    by (simp_all add: is_unit_file_def unit_of_file_def Atoi_def digit_val_def)
  have r: "record_of (map_of bad_version_dir) ''wordpress-0''
       = Some \<lparr>di_ChangeVersion = None, di_ChangedPending = False\<rparr>"
    by (simp add: record_of_def bad_version_dir_def)
  have p: "pending_file (map_of bad_pending_dir) ''mysql-1''"
    "pending_file (map_of bad_pending_dir) ''wordpress-0''"
    using u by (simp_all add: pending_file_def record_of_def bad_pending_dir_def)
  have "isl (ReadStateDir (fs_with bad_version_dir) scn_root 7)"
    using corrupt_directory_not_loaded [OF w1, of "''wordpress-0''"
            "\<lparr>di_ChangeVersion = None, di_ChangedPending = False\<rparr>" "''a''" "''a''"] u r
    by simp
  moreover have "isl (ReadStateDir (fs_with bad_pending_dir) scn_root 7)"
    using corrupt_directory_not_loaded [OF w2, of "''a''"
            "\<lparr>di_ChangeVersion = None, di_ChangedPending = False\<rparr>"
            "''mysql-1''" "''wordpress-0''"] p
    by simp
  ultimately show ?thesis
    using w1 w2 u r p by simp
qed

section \<open>Loading what does not exist\<close>

text \<open>
  C9. When the directory of the relation does not exist (\<open>Stat\<close> reports \<open>ENOENT\<close>),
  \<open>ReadStateDir\<close> returns, without error, the state directory with the fresh state of
  that relation id: an allocated, empty members map and no pending unit. When the root
  directory does not exist, \<open>ReadAllStateDirs\<close> returns the nil map (a map without
  entries) and no error.
\<close>

theorem absent_is_not_an_error:
  "(Stat fs (dirPath @ [Itoa relationId]) = Inl ENOENT \<longrightarrow>
      ReadStateDir fs dirPath relationId = Inr (fresh_dir dirPath relationId))
   \<and> (Stat fs dirPath = Inl ENOENT \<longrightarrow> ReadAllStateDirs fs dirPath = Inr None)"
  by (simp add: ReadStateDir_def ReadAllStateDirs_def IsNotExist_def fresh_dir_def
                fresh_state_def)

text \<open>
  In the scenario, before the directory of relation 7 is created; and for the root
  \<^verbatim>\<open>/nowhere\<close>, which does not exist.
\<close>

theorem absent_is_not_an_error_witness:
  "Stat scn_fs_absent (scn_root @ [Itoa 7]) = Inl ENOENT
   \<and> ReadStateDir scn_fs_absent scn_root 7 = Inr (scn_dir (Some Map.empty) '''')
   \<and> Stat scn_fs_absent [''nowhere''] = Inl ENOENT
   \<and> ReadAllStateDirs scn_fs_absent [''nowhere''] = Inr None"
  using absent_is_not_an_error [of scn_fs_absent scn_root 7]
        absent_is_not_an_error [of scn_fs_absent "[''nowhere'']" 7]
  by (simp add: Stat_def scn_fs_absent_def scn_root_def Itoa_7 scn_fresh [unfolded scn_root_def])

section \<open>The sentinel is never loaded\<close>

text \<open>
  C10. A state that \<open>ReadStateDir\<close> returns is never torn down: its members map is
  allocated. In particular, once a teardown event was recorded by \<open>Write\<close> (the cached
  state is torn down and the directory is gone), loading the relation again returns the
  fresh state, not a torn-down one.
\<close>

theorem torn_down_not_reloaded:
  "(ReadStateDir fs dirPath relationId = Inr d \<longrightarrow> \<not> torn_down (state d))
   \<and> (Kind e = RelationBroken \<and> path d0 = dirPath @ [Itoa relationId]
        \<and> Write fs d0 e = (Inr ok, fs', d') \<longrightarrow>
          torn_down (state d')
          \<and> ReadStateDir fs' dirPath relationId = Inr (fresh_dir dirPath relationId))"
proof (intro conjI impI)
  assume "ReadStateDir fs dirPath relationId = Inr d"
  then show "\<not> torn_down (state d)"
    by (simp add: torn_down_def ReadStateDir_Members)
next
  assume a: "Kind e = RelationBroken \<and> path d0 = dirPath @ [Itoa relationId]
        \<and> Write fs d0 e = (Inr ok, fs', d')"
  with Write_broken [of e fs d0 ok fs' d'] show "torn_down (state d')"
    by (simp add: torn_down_def)
next
  assume a: "Kind e = RelationBroken \<and> path d0 = dirPath @ [Itoa relationId]
        \<and> Write fs d0 e = (Inr ok, fs', d')"
  with Write_broken [of e fs d0 ok fs' d']
  have "walk fs' (dirPath @ [Itoa relationId]) = Inl ENOENT"
    by simp
  then show "ReadStateDir fs' dirPath relationId = Inr (fresh_dir dirPath relationId)"
    by (simp add: ReadStateDir_def Stat_def IsNotExist_def fresh_dir_def fresh_state_def)
qed

text \<open>The end of the scenario: the teardown is recorded and the relation is loaded again.\<close>

theorem torn_down_not_reloaded_witness:
  "Kind (scn_event RelationBroken '''' 0) = RelationBroken
   \<and> path (scn_dir (Some Map.empty) '''') = scn_root @ [Itoa 7]
   \<and> Write scn_fs_empty (scn_dir (Some Map.empty) '''') (scn_event RelationBroken '''' 0)
       = (Inr (), scn_fs_absent, scn_dir None '''')
   \<and> torn_down (state (scn_dir None ''''))
   \<and> ReadStateDir scn_fs_absent scn_root 7 = Inr (scn_dir (Some Map.empty) '''')
   \<and> \<not> torn_down (state (scn_dir (Some Map.empty) ''''))"
  using torn_down_not_reloaded [of scn_fs_empty scn_root 7 "scn_dir (Some Map.empty) ''''"
          "scn_event RelationBroken '''' 0" "scn_dir (Some Map.empty) ''''" "()"
          scn_fs_absent "scn_dir None ''''"]
        scn_write_broken scn_load_empty
  by (simp add: scn_event_def scn_dir_def scn_root_def Itoa_7 scn_fresh [unfolded scn_root_def]
                torn_down_def)


end
